theory Spec2Isabelle
  imports Main "HOL-Library.Sublist" "HOL-Library.Char_ord" "HOL-Library.List_Lexorder"
    "HOL-Library.Product_Lexorder"
begin

section \<open>Strings as the Python code uses them\<close>

text \<open>
  A Python \<open>str\<close> is a sequence of code points. The model writes it as a \<^typ>\<open>string\<close> and
  reads every \<^typ>\<open>char\<close> as the code point of the same number, so it covers the Latin-1
  part of Unicode (code points 0 to 255); \<^const>\<open>length\<close> then counts what \<open>len\<close> counts.
  The character classes below are the ones Python 3 uses on that range.
\<close>

definition in_range :: "char \<Rightarrow> char \<Rightarrow> char \<Rightarrow> bool" where
  "in_range lo hi c = ((of_char lo :: nat) \<le> of_char c \<and> (of_char c :: nat) \<le> of_char hi)"

text \<open>\<open>str.isspace\<close> for one character: what \<open>strip()\<close> removes and \<open>split()\<close> splits at.\<close>

definition py_isspace :: "char \<Rightarrow> bool" where
  "py_isspace c = (in_range (CHR 0x09) (CHR 0x0D) c \<or> in_range (CHR 0x1C) (CHR 0x20) c
      \<or> c = CHR 0x85 \<or> c = CHR 0xA0)"

text \<open>\<open>str.lower\<close> for one character: the upper-case letters are \<open>A-Z\<close> and \<open>0xC0-0xDE\<close>
  without the multiplication sign, and lower-casing sets the bit of weight 32.\<close>

definition py_lower_char :: "char \<Rightarrow> char" where
  "py_lower_char c =
     (if in_range CHR ''A'' CHR ''Z'' c \<or> (in_range (CHR 0xC0) (CHR 0xDE) c \<and> c \<noteq> CHR 0xD7)
      then (case c of Char b0 b1 b2 b3 b4 b5 b6 b7 \<Rightarrow> Char b0 b1 b2 b3 b4 True b6 b7)
      else c)"

definition lower :: "string \<Rightarrow> string" where
  "lower s = map py_lower_char s"

definition strip :: "string \<Rightarrow> string" where
  "strip s = rev (dropWhile py_isspace (rev (dropWhile py_isspace s)))"

definition rstrip_char :: "char \<Rightarrow> string \<Rightarrow> string" where
  "rstrip_char x s = rev (dropWhile (\<lambda>c. c = x) (rev s))"

definition startswith_char :: "char \<Rightarrow> string \<Rightarrow> bool" where
  "startswith_char x s = (case s of [] \<Rightarrow> False | c # _ \<Rightarrow> c = x)"

definition endswith_char :: "char \<Rightarrow> string \<Rightarrow> bool" where
  "endswith_char x s = (case rev s of [] \<Rightarrow> False | c # _ \<Rightarrow> c = x)"

text \<open>\<open>s.split(sep)\<close> with a one-character separator: empty pieces are kept.\<close>

fun split_on :: "char \<Rightarrow> string \<Rightarrow> string list" where
  "split_on sep [] = [[]]"
| "split_on sep (c # cs) =
     (if c = sep then [] # split_on sep cs
      else (case split_on sep cs of [] \<Rightarrow> [[c]] | w # ws \<Rightarrow> (c # w) # ws))"

text \<open>\<open>sep.join(pieces)\<close>.\<close>

fun join :: "char \<Rightarrow> string list \<Rightarrow> string" where
  "join sep [] = []"
| "join sep [x] = x"
| "join sep (x # y # ys) = x @ sep # join sep (y # ys)"

text \<open>\<open>s.split()\<close>: the maximal runs of characters that are not white space.\<close>

function split_ws :: "string \<Rightarrow> string list" where
  "split_ws [] = []"
| "split_ws (c # cs) =
     (if py_isspace c then split_ws cs
      else (c # takeWhile (\<lambda>d. \<not> py_isspace d) cs) # split_ws (dropWhile (\<lambda>d. \<not> py_isspace d) cs))"
  by pat_completeness auto
termination
  by (relation "measure length") (auto simp: less_Suc_eq_le length_dropWhile_le)

text \<open>\<open>re.sub(r'/+', '/', s)\<close>: every maximal run of slashes becomes one slash.\<close>

function collapse_slashes :: "string \<Rightarrow> string" where
  "collapse_slashes [] = []"
| "collapse_slashes (c # cs) =
     (if c = CHR ''/'' then CHR ''/'' # collapse_slashes (dropWhile (\<lambda>d. d = CHR ''/'') cs)
      else c # collapse_slashes cs)"
  by pat_completeness auto
termination
  by (relation "measure length") (auto simp: less_Suc_eq_le length_dropWhile_le)

text \<open>
  \<open>re.sub(r'\{[^}]+\}', '{param}', s)\<close>: scanning from the left, an opening brace followed by
  at least one character other than a closing brace and then a closing brace is replaced as
  a whole; any other character is copied.
\<close>

function sub_placeholders :: "string \<Rightarrow> string" where
  "sub_placeholders [] = []"
| "sub_placeholders (c # cs) =
     (let name = takeWhile (\<lambda>d. d \<noteq> CHR ''}'') cs; rest = dropWhile (\<lambda>d. d \<noteq> CHR ''}'') cs
      in if c = CHR ''{'' \<and> name \<noteq> [] \<and> rest \<noteq> [] then ''{param}'' @ sub_placeholders (tl rest)
         else c # sub_placeholders cs)"
  by pat_completeness auto
termination
proof (relation "measure length")
  show "wf (measure length)" by simp
next
  fix c :: char and cs x xa :: string
  assume "xa = dropWhile (\<lambda>d. d \<noteq> CHR ''}'') cs"
  then have "length xa \<le> length cs"
    by (simp add: length_dropWhile_le)
  then have "length (tl xa) \<le> length cs"
    by simp
  then show "(tl xa, c # cs) \<in> measure length" by simp
next
  fix c :: char and cs :: string
  show "(cs, c # cs) \<in> measure length" by simp
qed

section \<open>Path normalizer and parameterizer\<close>

text \<open>\<open>_normalize_path\<close>.\<close>

definition normalize_path :: "string \<Rightarrow> string" where
  "normalize_path path =
     (if path = [] then ''/''
      else let normalized = collapse_slashes (strip path);
               normalized = (if \<not> startswith_char CHR ''/'' normalized
                             then CHR ''/'' # normalized else normalized);
               normalized = (if length normalized > 1 \<and> endswith_char CHR ''/'' normalized
                             then rstrip_char CHR ''/'' normalized else normalized)
           in normalized)"

text \<open>\<open>_convert_to_generic_pattern\<close>.\<close>

definition convert_to_generic_pattern :: "string \<Rightarrow> string" where
  "convert_to_generic_pattern path = (if path = [] then path else sub_placeholders path)"

text \<open>The pieces of a path between slashes that are not empty.\<close>

definition segments_of :: "string \<Rightarrow> string list" where
  "segments_of s = filter (\<lambda>w. w \<noteq> []) (split_on CHR ''/'' s)"

text \<open>Two slashes next to each other somewhere in a string.\<close>

fun adjacent_slashes :: "string \<Rightarrow> bool" where
  "adjacent_slashes (c # d # cs) = ((c = CHR ''/'' \<and> d = CHR ''/'') \<or> adjacent_slashes (d # cs))"
| "adjacent_slashes _ = False"

section \<open>Regular expressions of the segment classifier\<close>

text \<open>The character classes \<open>\d\<close>, \<open>[a-zA-Z]\<close> (also \<open>[A-Z]\<close> under \<open>re.IGNORECASE\<close>),
  \<open>[a-f0-9]\<close> under \<open>re.IGNORECASE\<close>, \<open>\w\<close> and \<open>[A-Za-z0-9+/=_-]\<close>.\<close>

definition is_digit :: "char \<Rightarrow> bool" where
  "is_digit c = in_range CHR ''0'' CHR ''9'' c"

definition is_ascii_letter :: "char \<Rightarrow> bool" where
  "is_ascii_letter c = (in_range CHR ''a'' CHR ''z'' c \<or> in_range CHR ''A'' CHR ''Z'' c)"

definition is_hex :: "char \<Rightarrow> bool" where
  "is_hex c = (is_digit c \<or> in_range CHR ''a'' CHR ''f'' c \<or> in_range CHR ''A'' CHR ''F'' c)"

definition is_word :: "char \<Rightarrow> bool" where
  "is_word c = (is_ascii_letter c \<or> is_digit c \<or> c = CHR ''_''
      \<or> c = CHR 0xAA \<or> c = CHR 0xB2 \<or> c = CHR 0xB3 \<or> c = CHR 0xB5 \<or> c = CHR 0xB9 \<or> c = CHR 0xBA
      \<or> in_range (CHR 0xBC) (CHR 0xBE) c \<or> in_range (CHR 0xC0) (CHR 0xD6) c
      \<or> in_range (CHR 0xD8) (CHR 0xF6) c \<or> in_range (CHR 0xF8) (CHR 0xFF) c)"

definition is_base64_like :: "char \<Rightarrow> bool" where
  "is_base64_like c = (is_ascii_letter c \<or> is_digit c \<or> c \<in> set ''+/=_-'')"

text \<open>
  \<open>re.match(r'^...$', s)\<close> for a body that cannot match a line feed: Python's \<open>$\<close> matches at
  the end of the string and also just before a line feed that ends the string.
\<close>

definition re_anchored :: "(string \<Rightarrow> bool) \<Rightarrow> string \<Rightarrow> bool" where
  "re_anchored body s = (body s \<or> (s \<noteq> [] \<and> last s = CHR 0x0A \<and> body (butlast s)))"

text \<open>\<open>^\d+$\<close>\<close>

definition re_numeric :: "string \<Rightarrow> bool" where
  "re_numeric = re_anchored (\<lambda>t. t \<noteq> [] \<and> list_all is_digit t)"

text \<open>Groups of hexadecimal digits of the given lengths, separated by hyphens.\<close>

fun hex_groups :: "nat list \<Rightarrow> string \<Rightarrow> bool" where
  "hex_groups [] s = False"
| "hex_groups [n] s = (length s = n \<and> list_all is_hex s)"
| "hex_groups (n # m # ns) s =
     (length (take n s) = n \<and> list_all is_hex (take n s) \<and>
      (case drop n s of [] \<Rightarrow> False | c # rest \<Rightarrow> c = CHR ''-'' \<and> hex_groups (m # ns) rest))"

text \<open>\<open>^[a-f0-9]{8}-[a-f0-9]{4}-[a-f0-9]{4}-[a-f0-9]{4}-[a-f0-9]{12}$\<close> with \<open>re.IGNORECASE\<close>\<close>

definition re_uuid :: "string \<Rightarrow> bool" where
  "re_uuid = re_anchored (hex_groups [8, 4, 4, 4, 12])"

text \<open>\<open>^[A-Z]{2,4}-[\w\-]+$\<close> with \<open>re.IGNORECASE\<close>: for one of the prefix lengths 2, 3, 4 the
  prefix is letters, a hyphen follows, and the rest is not empty and made of word characters
  and hyphens.\<close>

definition re_prefixed :: "string \<Rightarrow> bool" where
  "re_prefixed = re_anchored (\<lambda>t. list_ex (\<lambda>n. n < length t \<and> list_all is_ascii_letter (take n t)
       \<and> t ! n = CHR ''-'' \<and> drop (Suc n) t \<noteq> []
       \<and> list_all (\<lambda>c. is_word c \<or> c = CHR ''-'') (drop (Suc n) t)) [2, 3, 4])"

text \<open>\<open>^[a-zA-Z0-9]+$\<close>\<close>

definition re_alnum :: "string \<Rightarrow> bool" where
  "re_alnum = re_anchored (\<lambda>t. t \<noteq> [] \<and> list_all (\<lambda>c. is_ascii_letter c \<or> is_digit c) t)"

text \<open>\<open>^[A-Za-z0-9+/=_-]+$\<close>\<close>

definition re_base64 :: "string \<Rightarrow> bool" where
  "re_base64 = re_anchored (\<lambda>t. t \<noteq> [] \<and> list_all is_base64_like t)"

text \<open>The pattern heuristics of \<open>_convert_segment_to_parameter\<close>, in the order of the source:
  the tests that follow the known-literal check.\<close>

definition looks_like_value :: "string \<Rightarrow> bool" where
  "looks_like_value segment =
     (if re_numeric segment then True
      else if re_uuid segment then True
      else if re_prefixed segment then True
      else if length segment \<ge> 8 \<and> re_alnum segment \<and> list_ex is_digit segment
              \<and> list_ex is_ascii_letter segment then True
      else if length segment \<ge> 10 \<and> re_base64 segment then True
      else False)"

subsection \<open>The classification in the words of the specification\<close>













section \<open>The catalog database\<close>

text \<open>
  The exceptions the two database classes let escape: \<open>RuntimeError\<close> from \<open>get_session\<close>
  when no session factory is set, an \<open>SQLAlchemyError\<close> (of which \<open>IntegrityError\<close> is one)
  raised by a statement, and the plain \<open>Exception\<close> into which \<open>APIDatabase\<close> wraps an
  \<open>SQLAlchemyError\<close>.
\<close>

datatype error = RuntimeError | SQLAlchemyError | IntegrityError | DatabaseException

text \<open>
  The state of the connection during one call: \<open>NotInitialized\<close> is \<open>SessionLocal\<close> being
  unset, \<open>Unavailable\<close> a server on which every statement fails.
\<close>

datatype link = Ready | NotInitialized | Unavailable

definition get_session :: "link \<Rightarrow> (error + 'a) \<Rightarrow> error + 'a" where
  "get_session l body =
     (case l of NotInitialized \<Rightarrow> Inl RuntimeError | Unavailable \<Rightarrow> Inl SQLAlchemyError | Ready \<Rightarrow> body)"

text \<open>\<open>except SQLAlchemyError as e: raise Exception(...)\<close>\<close>

definition reraise_as_exception :: "error + 'a \<Rightarrow> error + 'a" where
  "reraise_as_exception r =
     (case r of Inl SQLAlchemyError \<Rightarrow> Inl DatabaseException
              | Inl IntegrityError \<Rightarrow> Inl DatabaseException
              | _ \<Rightarrow> r)"

subsection \<open>What PostgreSQL does with the statements\<close>

text \<open>
  \<open>text LIKE pattern\<close>: \<open>%\<close> stands for any sequence of characters, \<open>_\<close> for any one
  character, and a backslash makes the character after it stand for itself.
\<close>

fun like :: "string \<Rightarrow> string \<Rightarrow> bool" where
  "like [] t = (t = [])"
| "like (p # ps) t =
     (if p = CHR ''%'' then
        (like ps t \<or> (case t of [] \<Rightarrow> False | c # ts \<Rightarrow> like (p # ps) ts))
      else if p = CHR 0x5C then
        (case ps of [] \<Rightarrow> False
                  | q # qs \<Rightarrow> (case t of [] \<Rightarrow> False | c # ts \<Rightarrow> c = q \<and> like qs ts))
      else (case t of [] \<Rightarrow> False | c # ts \<Rightarrow> (p = CHR ''_'' \<or> p = c) \<and> like ps ts))"

text \<open>\<open>text ILIKE pattern\<close>: both sides are lower-cased, then matched as \<open>LIKE\<close> does.\<close>

definition ilike :: "string \<Rightarrow> string \<Rightarrow> bool" where
  "ilike pattern t = like (lower pattern) (lower t)"

text \<open>
  A pattern that ends in a backslash which escapes nothing. PostgreSQL raises an error when
  matching reaches such an end; the model lets every statement with such a pattern fail.
\<close>

fun dangling_escape :: "string \<Rightarrow> bool" where
  "dangling_escape [] = False"
| "dangling_escape [c] = (c = CHR 0x5C)"
| "dangling_escape (c # d # cs) = (if c = CHR 0x5C then dangling_escape cs else dangling_escape (d # cs))"

text \<open>A comparison with a column that is \<open>NULL\<close> selects nothing.\<close>

definition like_col :: "string \<Rightarrow> string option \<Rightarrow> bool" where
  "like_col pattern col = (case col of None \<Rightarrow> False | Some t \<Rightarrow> like pattern t)"

definition ilike_col :: "string \<Rightarrow> string option \<Rightarrow> bool" where
  "ilike_col pattern col = (case col of None \<Rightarrow> False | Some t \<Rightarrow> ilike pattern t)"

text \<open>The largest value of a \<open>bigint\<close>, the type of the count of \<open>LIMIT\<close>.\<close>

definition BIGINT_MAX :: int where
  "BIGINT_MAX = 9223372036854775807"

text \<open>\<open>LIMIT n\<close>: a negative \<open>n\<close> and an \<open>n\<close> beyond \<open>bigint\<close> are errors of the statement.\<close>

definition sql_limit :: "int \<Rightarrow> 'a list \<Rightarrow> error + 'a list" where
  "sql_limit n rows =
     (if n < 0 \<or> n > BIGINT_MAX then Inl SQLAlchemyError else Inr (take (nat n) rows))"

subsection \<open>Tables\<close>

record endpoint =
  e_id :: int
  e_path :: string
  e_method :: string
  e_description :: "string option"
  e_category :: "string option"
  e_summary :: "string option"
  e_tags :: "string option"
  e_keywords :: "string option"

record parameter =
  p_id :: int
  p_endpoint_id :: int
  p_name :: string
  p_location :: string
  p_required :: "bool option"
  p_type :: "string option"
  p_description :: "string option"

record request_body =
  rq_id :: int
  rq_endpoint_id :: int
  rq_schema :: "string option"
  rq_example :: "string option"

record response_body =
  rs_id :: int
  rs_endpoint_id :: int
  rs_status_code :: "string option"
  rs_description :: "string option"
  rs_schema :: "string option"
  rs_example :: "string option"

text \<open>
  An \<open>APIDatabase\<close> object and the database behind it. The rows of a table are listed in the
  order in which a statement without \<open>ORDER BY\<close> returns them. The full-text index is not
  modelled: \<open>has_vector_data\<close> is what the probe of \<open>has_fulltext_search\<close> finds, and the
  three ranked statements are given by what they return for a query before \<open>LIMIT\<close> is
  applied, an error or the matching rows in rank order. \<open>known_segments_cache\<close> is the
  attribute \<open>_known_segments_cache\<close>.
\<close>

record api_database =
  link :: link
  endpoints :: "endpoint list"
  parameters :: "parameter list"
  request_bodies :: "request_body list"
  response_bodies :: "response_body list"
  has_vector_data :: bool
  websearch_by_rank :: "string \<Rightarrow> error + endpoint list"
  websearch_by_rank_cd :: "string \<Rightarrow> error + endpoint list"
  plainto_by_rank :: "string \<Rightarrow> error + endpoint list"
  known_segments_cache :: "string \<Rightarrow> bool option"

definition has_fulltext_search :: "api_database \<Rightarrow> bool" where
  "has_fulltext_search db =
     (case get_session (link db) (Inr (has_vector_data db)) of Inl _ \<Rightarrow> False | Inr b \<Rightarrow> b)"

subsection \<open>Endpoint details\<close>

text \<open>
  A \<open>schema\<close> or \<open>example\<close> entry of the returned dictionary: the column as it is when it is
  \<open>NULL\<close> or empty or when \<open>json.loads\<close> rejects it, the parsed document otherwise.
  \<open>json.loads\<close> is the parameter \<open>loads\<close>, with \<open>None\<close> for \<open>JSONDecodeError\<close>.
\<close>

datatype 'j json_field = Null | Text string | Json 'j

definition parse_field :: "(string \<Rightarrow> 'j option) \<Rightarrow> string option \<Rightarrow> 'j json_field" where
  "parse_field loads col =
     (case col of None \<Rightarrow> Null
      | Some s \<Rightarrow> if s = [] then Text s
                  else (case loads s of None \<Rightarrow> Text s | Some j \<Rightarrow> Json j))"

record 'j request_details =
  rqd_row :: request_body
  rqd_schema :: "'j json_field"
  rqd_example :: "'j json_field"

record 'j response_details =
  rsd_row :: response_body
  rsd_schema :: "'j json_field"
  rsd_example :: "'j json_field"

text \<open>The dictionary \<open>get_endpoint_details\<close> returns: empty, or the endpoint row with the keys
  \<open>parameters\<close>, \<open>request_body\<close> (set only when there is a row) and \<open>response_bodies\<close>.\<close>

datatype 'j details =
  EmptyDict
| Details endpoint "parameter list" "'j request_details option" "'j response_details list"

definition get_endpoint_details :: "(string \<Rightarrow> 'j option) \<Rightarrow> api_database \<Rightarrow> int \<Rightarrow> error + 'j details" where
  "get_endpoint_details loads db endpoint_id =
     reraise_as_exception (get_session (link db)
       (case find (\<lambda>e. e_id e = endpoint_id) (endpoints db) of
          None \<Rightarrow> Inr EmptyDict
        | Some endpoint_row \<Rightarrow>
            Inr (Details endpoint_row
              (filter (\<lambda>p. p_endpoint_id p = endpoint_id) (parameters db))
              (map_option
                 (\<lambda>r. \<lparr>rqd_row = r, rqd_schema = parse_field loads (rq_schema r),
                        rqd_example = parse_field loads (rq_example r)\<rparr>)
                 (find (\<lambda>r. rq_endpoint_id r = endpoint_id) (request_bodies db)))
              (map (\<lambda>r. \<lparr>rsd_row = r, rsd_schema = parse_field loads (rs_schema r),
                          rsd_example = parse_field loads (rs_example r)\<rparr>)
                 (filter (\<lambda>r. rs_endpoint_id r = endpoint_id) (response_bodies db))))))"

subsection \<open>Parameterizer\<close>

text \<open>\<open>_is_known_path_segment\<close>: the answer and the object with its cache. An exception inside
  the \<open>try\<close> gives \<open>False\<close> and leaves the cache as it is.\<close>

definition is_known_path_segment :: "api_database \<Rightarrow> string \<Rightarrow> bool \<times> api_database" where
  "is_known_path_segment db segment =
     (if segment = [] then (False, db)
      else (case known_segments_cache db segment of
              Some known \<Rightarrow> (known, db)
            | None \<Rightarrow>
               (let segment_pattern = ''%/'' @ segment @ ''%'' in
                case get_session (link db)
                       (if dangling_escape segment_pattern then Inl SQLAlchemyError
                        else Inr (length (filter (\<lambda>e. like segment_pattern (e_path e)) (endpoints db)))) of
                  Inl _ \<Rightarrow> (False, db)
                | Inr count \<Rightarrow>
                    (let exists = (count > 0)
                     in (exists, db\<lparr>known_segments_cache := (known_segments_cache db)(segment \<mapsto> exists)\<rparr>)))))"

text \<open>\<open>_convert_segment_to_parameter\<close>\<close>

definition convert_segment_to_parameter :: "api_database \<Rightarrow> string \<Rightarrow> string \<times> api_database" where
  "convert_segment_to_parameter db segment =
     (if segment = [] then (segment, db)
      else (case is_known_path_segment db segment of
              (known, db') \<Rightarrow>
                if known then (segment, db')
                else if looks_like_value segment then (''{id}'', db')
                else (segment, db')))"

text \<open>The loop of \<open>_convert_to_parameterized_path\<close> over the segments.\<close>

fun convert_segments :: "api_database \<Rightarrow> string list \<Rightarrow> string list \<times> api_database" where
  "convert_segments db [] = ([], db)"
| "convert_segments db (segment # segments) =
     (if segment = [] then
        (case convert_segments db segments of (converted, db') \<Rightarrow> (segment # converted, db'))
      else
        (case convert_segment_to_parameter db segment of
           (converted_segment, db1) \<Rightarrow>
             (case convert_segments db1 segments of
                (converted, db2) \<Rightarrow> (converted_segment # converted, db2))))"

text \<open>\<open>_convert_to_parameterized_path\<close>\<close>

definition convert_to_parameterized_path :: "api_database \<Rightarrow> string \<Rightarrow> string \<times> api_database" where
  "convert_to_parameterized_path db path =
     (if path = [] \<or> path = ''/'' then (path, db)
      else let normalized_path = rstrip_char CHR ''/'' path;
               normalized_path = (if \<not> startswith_char CHR ''/'' normalized_path
                                  then CHR ''/'' # normalized_path else normalized_path)
           in (case convert_segments db (split_on CHR ''/'' normalized_path) of
                 (converted_segments, db') \<Rightarrow> (join CHR ''/'' converted_segments, db')))"

subsection \<open>Endpoint resolver\<close>

text \<open>The row of the exact match: \<open>WHERE path ilike :path AND method = :method\<close>, first row.\<close>

definition exact_match :: "api_database \<Rightarrow> string \<Rightarrow> string \<Rightarrow> endpoint option" where
  "exact_match db normalized_path method =
     find (\<lambda>e. ilike normalized_path (e_path e) \<and> e_method e = lower method) (endpoints db)"

text \<open>The scan of the rows with the method for the first one with the generic pattern.\<close>

definition pattern_scan :: "api_database \<Rightarrow> string \<Rightarrow> string \<Rightarrow> endpoint option" where
  "pattern_scan db generic_pattern method =
     find (\<lambda>row. convert_to_generic_pattern (e_path row) = generic_pattern)
       (filter (\<lambda>e. e_method e = lower method) (endpoints db))"

text \<open>\<open>return self.get_endpoint_details(row.id)\<close>\<close>

definition return_details :: "(string \<Rightarrow> 'j option) \<Rightarrow> api_database \<Rightarrow> int \<Rightarrow> error + 'j details option" where
  "return_details loads db endpoint_id =
     (case get_endpoint_details loads db endpoint_id of Inl e \<Rightarrow> Inl e | Inr d \<Rightarrow> Inr (Some d))"

text \<open>
  \<open>find_endpoint_by_path_method\<close>: the result and the object with its cache. When the generic
  pattern equals the parameterized path the second statement is not run, and the
  \<open>fetchone()\<close> after the loop reads a result that has no row left in either case.
\<close>

definition find_endpoint_by_path_method ::
  "(string \<Rightarrow> 'j option) \<Rightarrow> api_database \<Rightarrow> string \<Rightarrow> string \<Rightarrow> (error + 'j details option) \<times> api_database" where
  "find_endpoint_by_path_method loads db path method =
     (let normalized_path = normalize_path path in
      case get_session (link db) (Inr ()) of
        Inl e \<Rightarrow> (reraise_as_exception (Inl e), db)
      | Inr _ \<Rightarrow>
          if dangling_escape (lower normalized_path) then (Inl DatabaseException, db)
          else (case exact_match db normalized_path method of
                  Some endpoint_row \<Rightarrow> (return_details loads db (e_id endpoint_row), db)
                | None \<Rightarrow>
                   (case convert_to_parameterized_path db normalized_path of
                      (parameterized_path, db') \<Rightarrow>
                        (let generic_pattern = convert_to_generic_pattern parameterized_path in
                         if generic_pattern \<noteq> parameterized_path then
                           (case pattern_scan db' generic_pattern method of
                              Some row \<Rightarrow> (return_details loads db' (e_id row), db')
                            | None \<Rightarrow> (Inr None, db'))
                         else (Inr None, db')))))"

subsection \<open>A small catalog\<close>

definition mk_endpoint :: "int \<Rightarrow> string \<Rightarrow> string \<Rightarrow> string \<Rightarrow> endpoint" where
  "mk_endpoint i p m s =
     \<lparr>e_id = i, e_path = p, e_method = m, e_description = None, e_category = Some ''Tickets'',
      e_summary = Some s, e_tags = None, e_keywords = None\<rparr>"

definition catalog_of :: "endpoint list \<Rightarrow> api_database" where
  "catalog_of rows =
     \<lparr>link = Ready, endpoints = rows, parameters = [], request_bodies = [], response_bodies = [],
      has_vector_data = False, websearch_by_rank = (\<lambda>_. Inr []), websearch_by_rank_cd = (\<lambda>_. Inr []),
      plainto_by_rank = (\<lambda>_. Inr []), known_segments_cache = Map.empty\<rparr>"

definition ticket_catalog :: api_database where
  "ticket_catalog = catalog_of
     [mk_endpoint 1 ''/service/tickets'' ''get'' ''Get Tickets'',
      mk_endpoint 2 ''/service/tickets/{id}'' ''get'' ''Get Ticket'',
      mk_endpoint 3 ''/finance/invoices/{id}'' ''get'' ''Get Invoice'',
      mk_endpoint 4 ''/company/typeAssociations'' ''get'' ''Get Type Associations'']"

text \<open>The small catalog with a parameter, a request body and a response body for endpoint 2.\<close>

definition detailed_catalog :: api_database where
  "detailed_catalog =
     ticket_catalog\<lparr>
       parameters := [\<lparr>p_id = 1, p_endpoint_id = 2, p_name = ''id'', p_location = ''path'',
                       p_required = Some True, p_type = Some ''integer'', p_description = None\<rparr>],
       request_bodies := [\<lparr>rq_id = 1, rq_endpoint_id = 2, rq_schema = Some ''{}'', rq_example = None\<rparr>],
       response_bodies := [\<lparr>rs_id = 1, rs_endpoint_id = 2, rs_status_code = Some ''200'',
                             rs_description = None, rs_schema = Some ''not json'', rs_example = Some ''''\<rparr>]\<rparr>"

text \<open>A \<open>json.loads\<close> that accepts the empty object only.\<close>

definition loads_empty_object :: "string \<Rightarrow> unit option" where
  "loads_empty_object s = (if s = ''{}'' then Some () else None)"

text \<open>A catalog with two endpoints whose paths differ in case only.\<close>

definition case_catalog :: api_database where
  "case_catalog = catalog_of
     [mk_endpoint 1 ''/Service/Tickets'' ''get'' ''Get Tickets (old)'',
      mk_endpoint 2 ''/service/tickets'' ''get'' ''Get Tickets'']"

section \<open>Tiered search\<close>

text \<open>
  A ranked statement in its own session inside \<open>try ... except Exception: pass\<close>: the rows
  it returns under its \<open>LIMIT\<close>, and no rows when anything in the block raises.
\<close>

definition ranked_tier ::
  "api_database \<Rightarrow> (string \<Rightarrow> error + endpoint list) \<Rightarrow> string \<Rightarrow> int \<Rightarrow> endpoint list" where
  "ranked_tier db statement query limit_val =
     (case get_session (link db)
             (case statement query of Inl e \<Rightarrow> Inl e | Inr rows \<Rightarrow> sql_limit limit_val rows) of
        Inl _ \<Rightarrow> []
      | Inr results \<Rightarrow> results)"

text \<open>\<open>path ILIKE :p OR description ILIKE :p OR tags ILIKE :p OR summary ILIKE :p\<close>\<close>

definition matches_any_field :: "string \<Rightarrow> endpoint \<Rightarrow> bool" where
  "matches_any_field pattern e =
     (ilike pattern (e_path e) \<or> ilike_col pattern (e_description e)
      \<or> ilike_col pattern (e_tags e) \<or> ilike_col pattern (e_summary e))"

text \<open>The key of \<open>ORDER BY category, path\<close>: a \<open>NULL\<close> category sorts last; rows with equal
  keys stay in table order.\<close>

definition category_then_path :: "endpoint \<Rightarrow> (nat \<times> string) \<times> string" where
  "category_then_path e =
     ((case e_category e of None \<Rightarrow> (1, []) | Some c \<Rightarrow> (0, c)), e_path e)"

text \<open>\<open>search_endpoints\<close>\<close>

definition search_endpoints :: "api_database \<Rightarrow> string \<Rightarrow> error + endpoint list" where
  "search_endpoints db query =
     (let results = (if has_fulltext_search db
                     then ranked_tier db (websearch_by_rank db) query 50 else [])
      in if results \<noteq> [] then Inr results
         else reraise_as_exception (get_session (link db)
                (let search_pattern = ''%'' @ query @ ''%''
                 in Inr (sort_key category_then_path
                           (filter (matches_any_field search_pattern) (endpoints db))))))"

definition stopwords :: "string list" where
  "stopwords =
     [''the'', ''a'', ''an'', ''and'', ''or'', ''but'', ''in'', ''on'', ''at'', ''to'', ''for'', ''with'', ''by'',
      ''about'', ''like'', ''from'', ''of'', ''as'', ''is'', ''are'', ''was'', ''were'', ''be'', ''been'', ''being'',
      ''have'', ''has'', ''had'', ''do'', ''does'', ''did'', ''will'', ''would'', ''should'', ''could'', ''can'',
      ''i'', ''you'', ''he'', ''she'', ''it'', ''we'', ''they'', ''this'', ''that'', ''these'', ''those'',
      ''get'', ''find'', ''show'', ''list'', ''give'', ''me'', ''all'', ''some'', ''any'', ''how'', ''what'',
      ''when'', ''where'', ''why'']"

text \<open>\<open>[word for word in keywords if word not in stopwords and len(word) >= 3]\<close> on the
  words of the lower-cased, stripped query.\<close>

definition filtered_keywords :: "string \<Rightarrow> string list" where
  "filtered_keywords query_lower =
     filter (\<lambda>word. word \<notin> set stopwords \<and> length word \<ge> 3) (split_ws query_lower)"

text \<open>The \<open>CASE\<close> of the \<open>ORDER BY\<close> clause; rows with equal values stay in table order.\<close>

definition field_priority :: "string \<Rightarrow> endpoint \<Rightarrow> nat" where
  "field_priority first_pattern e =
     (if ilike_col first_pattern (e_summary e) then 1
      else if ilike_col first_pattern (e_description e) then 2
      else if ilike first_pattern (e_path e) then 3
      else if ilike_col first_pattern (e_tags e) then 4
      else 5)"

text \<open>The last \<open>try\<close> block of \<open>search_by_natural_language\<close>: the keyword search.\<close>

definition keyword_search :: "api_database \<Rightarrow> string \<Rightarrow> int \<Rightarrow> error + endpoint list" where
  "keyword_search db query_lower limit_val =
     (case filtered_keywords query_lower of
        [] \<Rightarrow> Inr []
      | first_keyword # more_keywords \<Rightarrow>
          reraise_as_exception (get_session (link db)
            (sql_limit limit_val
               (sort_key (field_priority (''%'' @ first_keyword @ ''%''))
                  (filter (\<lambda>e. list_ex (\<lambda>keyword. matches_any_field (''%'' @ keyword @ ''%'') e)
                                 (first_keyword # more_keywords))
                     (endpoints db))))))"

text \<open>\<open>search_by_natural_language\<close>\<close>

definition search_by_natural_language :: "api_database \<Rightarrow> string \<Rightarrow> int \<Rightarrow> error + endpoint list" where
  "search_by_natural_language db query limit_val =
     (let query_lower = strip (lower query) in
      if query_lower = [] then Inr []
      else
        let results = (if has_fulltext_search db
                       then ranked_tier db (websearch_by_rank_cd db) query_lower limit_val else [])
        in if results \<noteq> [] then Inr results
           else
             let results = (if has_fulltext_search db
                            then ranked_tier db (plainto_by_rank db) query_lower limit_val else [])
             in if results \<noteq> [] then Inr results
                else keyword_search db query_lower limit_val)"

text \<open>A catalog of 51 endpoints: the paths \<open>/a\<close>, \<open>/aa\<close>, \<open>/aaa\<close> and so on, all with \<open>get\<close>.\<close>

definition wide_catalog :: api_database where
  "wide_catalog =
     catalog_of (map (\<lambda>i. mk_endpoint (int i) (CHR ''/'' # replicate (Suc i) CHR ''a'') ''get'' ''Get'')
                   [0..<51])"

text \<open>A field holds a token, as the specification words the keyword match.\<close>

definition holds_token :: "string \<Rightarrow> string option \<Rightarrow> bool" where
  "holds_token token col = (case col of None \<Rightarrow> False | Some t \<Rightarrow> sublist token t)"

definition spec_token_match :: "string \<Rightarrow> endpoint \<Rightarrow> bool" where
  "spec_token_match token e =
     (sublist token (e_path e) \<or> holds_token token (e_description e)
      \<or> holds_token token (e_tags e) \<or> holds_token token (e_summary e))"

text \<open>The same with upper and lower case taken as equal.\<close>

definition holds_token_ignoring_case :: "string \<Rightarrow> string option \<Rightarrow> bool" where
  "holds_token_ignoring_case token col =
     (case col of None \<Rightarrow> False | Some t \<Rightarrow> sublist (lower token) (lower t))"

definition token_match_ignoring_case :: "string \<Rightarrow> endpoint \<Rightarrow> bool" where
  "token_match_ignoring_case token e =
     (sublist (lower token) (lower (e_path e)) \<or> holds_token_ignoring_case token (e_description e)
      \<or> holds_token_ignoring_case token (e_tags e) \<or> holds_token_ignoring_case token (e_summary e))"

text \<open>The characters with a meaning of their own in a \<open>LIKE\<close> pattern.\<close>

definition like_special :: "char \<Rightarrow> bool" where
  "like_special c = (c = CHR ''%'' \<or> c = CHR ''_'' \<or> c = CHR 0x5C)"


section \<open>The saved-query store\<close>

text \<open>A row of \<open>saved_queries\<close>; \<open>'j\<close> is the type of the JSON documents.\<close>

record 'j saved_query =
  q_id :: int
  q_description :: string
  q_path :: string
  q_method :: string
  q_params :: "'j option"
  q_data :: "'j option"
  q_timestamp :: int
  q_usage_count :: int

text \<open>
  A \<open>CachedQueriesDB\<close> object and the table behind it: the connection, the rows in the order
  in which a statement without \<open>ORDER BY\<close> returns them, and the next value of the sequence
  that numbers new rows.
\<close>

record 'j cached_queries_db =
  cq_link :: link
  saved_queries :: "'j saved_query list"
  next_id :: int

text \<open>The largest value of an \<open>Integer\<close> column; a statement that would exceed it fails.\<close>

definition INT_MAX :: int where
  "INT_MAX = 2147483647"

text \<open>The dictionaries built from rows are the rows; \<open>ORDER BY usage_count DESC, timestamp DESC\<close>
  keeps rows with equal keys in table order.\<close>

definition by_usage_then_timestamp :: "'j saved_query list \<Rightarrow> 'j saved_query list" where
  "by_usage_then_timestamp rows = sort_key (\<lambda>q. (- q_usage_count q, - q_timestamp q)) rows"

text \<open>
  Every operation returns what the call returns or raises, and the object after the call; a
  call that raises is rolled back. \<open>now\<close> is the value of \<open>int(time.time())\<close>.
\<close>

definition save_query ::
  "'j cached_queries_db \<Rightarrow> int \<Rightarrow> string \<Rightarrow> string \<Rightarrow> string \<Rightarrow> 'j option \<Rightarrow> 'j option
     \<Rightarrow> (error + int) \<times> 'j cached_queries_db" where
  "save_query db now description path method params data =
     (case get_session (cq_link db) (Inr ()) of
        Inl e \<Rightarrow> (Inl e, db)
      | Inr _ \<Rightarrow>
         (case find (\<lambda>q. q_path q = path \<and> q_method q = method) (saved_queries db) of
            Some existing_query \<Rightarrow>
              if q_usage_count existing_query + 1 > INT_MAX then (Inl SQLAlchemyError, db)
              else (Inr (q_id existing_query),
                    db\<lparr>saved_queries :=
                         map (\<lambda>q. if q_id q = q_id existing_query
                                   then q\<lparr>q_usage_count := q_usage_count q + 1, q_timestamp := now,
                                          q_params := params, q_data := data,
                                          q_description := description\<rparr>
                                   else q)
                             (saved_queries db)\<rparr>)
          | None \<Rightarrow>
              if next_id db > INT_MAX then (Inl SQLAlchemyError, db)
              else if list_ex (\<lambda>q. q_id q = next_id db) (saved_queries db)
              then (Inl IntegrityError, db\<lparr>next_id := next_id db + 1\<rparr>)
              else (Inr (next_id db),
                    db\<lparr>saved_queries := saved_queries db @
                           [\<lparr>q_id = next_id db, q_description = description, q_path = path,
                             q_method = method, q_params = params, q_data = data,
                             q_timestamp = now, q_usage_count = 1\<rparr>],
                        next_id := next_id db + 1\<rparr>)))"

definition find_query ::
  "'j cached_queries_db \<Rightarrow> string \<Rightarrow> string \<Rightarrow> (error + 'j saved_query option) \<times> 'j cached_queries_db" where
  "find_query db path method =
     (get_session (cq_link db)
        (Inr (find (\<lambda>q. q_path q = path \<and> q_method q = method) (saved_queries db))), db)"

definition search_queries ::
  "'j cached_queries_db \<Rightarrow> string \<Rightarrow> (error + 'j saved_query list) \<times> 'j cached_queries_db" where
  "search_queries db search_term =
     (let search_pattern = ''%'' @ search_term @ ''%'' in
      (get_session (cq_link db)
         (Inr (by_usage_then_timestamp
            (filter (\<lambda>q. ilike search_pattern (q_description q) \<or> ilike search_pattern (q_path q))
               (saved_queries db)))), db))"

definition get_all_queries ::
  "'j cached_queries_db \<Rightarrow> (error + 'j saved_query list) \<times> 'j cached_queries_db" where
  "get_all_queries db =
     (get_session (cq_link db) (Inr (by_usage_then_timestamp (saved_queries db))), db)"

definition increment_usage ::
  "'j cached_queries_db \<Rightarrow> int \<Rightarrow> int \<Rightarrow> (error + unit) \<times> 'j cached_queries_db" where
  "increment_usage db now query_id =
     (case get_session (cq_link db) (Inr ()) of
        Inl e \<Rightarrow> (Inl e, db)
      | Inr _ \<Rightarrow>
          if list_ex (\<lambda>q. q_id q = query_id \<and> q_usage_count q + 1 > INT_MAX) (saved_queries db)
          then (Inl SQLAlchemyError, db)
          else (Inr (),
                db\<lparr>saved_queries :=
                     map (\<lambda>q. if q_id q = query_id
                               then q\<lparr>q_usage_count := q_usage_count q + 1, q_timestamp := now\<rparr>
                               else q)
                         (saved_queries db)\<rparr>))"

text \<open>
  \<open>delete_query\<close>: the body has no \<open>return\<close> statement, so a call that does not raise returns
  Python's \<open>None\<close>, written \<open>None\<close> here; \<open>Some b\<close> would be the boolean \<open>b\<close>.
\<close>

definition delete_query ::
  "'j cached_queries_db \<Rightarrow> int \<Rightarrow> (error + bool option) \<times> 'j cached_queries_db" where
  "delete_query db query_id =
     (case get_session (cq_link db) (Inr ()) of
        Inl e \<Rightarrow> (Inl e, db)
      | Inr _ \<Rightarrow>
          (Inr None, db\<lparr>saved_queries := filter (\<lambda>q. q_id q \<noteq> query_id) (saved_queries db)\<rparr>))"

definition clear_all ::
  "'j cached_queries_db \<Rightarrow> (error + nat) \<times> 'j cached_queries_db" where
  "clear_all db =
     (case get_session (cq_link db) (Inr ()) of
        Inl e \<Rightarrow> (Inl e, db)
      | Inr _ \<Rightarrow> (Inr (length (saved_queries db)), db\<lparr>saved_queries := []\<rparr>))"

text \<open>The operations of the store as values, and the store after one of them.\<close>

datatype 'j operation =
  SaveQuery int string string string "'j option" "'j option"
| FindQuery string string
| SearchQueries string
| GetAllQueries
| IncrementUsage int int
| DeleteQuery int
| ClearAll

fun store_after :: "'j cached_queries_db \<Rightarrow> 'j operation \<Rightarrow> 'j cached_queries_db" where
  "store_after db (SaveQuery now description path method params data) =
     snd (save_query db now description path method params data)"
| "store_after db (FindQuery path method) = snd (find_query db path method)"
| "store_after db (SearchQueries search_term) = snd (search_queries db search_term)"
| "store_after db GetAllQueries = snd (get_all_queries db)"
| "store_after db (IncrementUsage now query_id) = snd (increment_usage db now query_id)"
| "store_after db (DeleteQuery query_id) = snd (delete_query db query_id)"
| "store_after db ClearAll = snd (clear_all db)"

text \<open>The row with an id, and the rows of a (path, method) pair.\<close>

definition row_with_id :: "'j cached_queries_db \<Rightarrow> int \<Rightarrow> 'j saved_query option" where
  "row_with_id db i = find (\<lambda>q. q_id q = i) (saved_queries db)"

definition rows_for :: "'j cached_queries_db \<Rightarrow> string \<Rightarrow> string \<Rightarrow> 'j saved_query list" where
  "rows_for db path method = filter (\<lambda>q. q_path q = path \<and> q_method q = method) (saved_queries db)"

text \<open>A store with one saved query.\<close>

definition ticket_store :: "string cached_queries_db" where
  "ticket_store =
     \<lparr>cq_link = Ready,
      saved_queries =
        [\<lparr>q_id = 1, q_description = ''Get all open tickets'', q_path = ''/service/tickets'',
          q_method = ''GET'', q_params = Some ''conditions'', q_data = None,
          q_timestamp = 1700000000, q_usage_count = 3\<rparr>],
      next_id = 2\<rparr>"

section \<open>Properties of the path normalizer\<close>


lemma collapse_slashes_Nil_iff: "collapse_slashes s = [] \<longleftrightarrow> s = []"
  by (cases s) auto

lemma hd_collapse_slashes: "hd (collapse_slashes s) = hd s"
  by (cases s) auto

lemma sublist_double_slash: "sublist ''//'' s \<longleftrightarrow> adjacent_slashes s"
  by (induction s rule: adjacent_slashes.induct) (auto simp: sublist_Cons_right)

lemma adjacent_slashes_Cons:
  "adjacent_slashes (c # s) \<longleftrightarrow> (c = CHR ''/'' \<and> s \<noteq> [] \<and> hd s = CHR ''/'') \<or> adjacent_slashes s"
  by (cases s) auto

lemma collapse_slashes_no_adjacent: "\<not> adjacent_slashes (collapse_slashes s)"
proof (induction s rule: collapse_slashes.induct)
  case 1
  then show ?case by simp
next
  case (2 c cs)
  show ?case
  proof (cases "c = CHR ''/''")
    case True
    let ?r = "dropWhile (\<lambda>d. d = CHR ''/'') cs"
    have "?r \<noteq> [] \<Longrightarrow> hd ?r \<noteq> CHR ''/''"
      using hd_dropWhile[of "\<lambda>d. d = CHR ''/''" cs] by simp
    with 2 True show ?thesis
      by (auto simp: adjacent_slashes_Cons collapse_slashes_Nil_iff hd_collapse_slashes)
  next
    case False
    with 2 show ?thesis
      by (auto simp: adjacent_slashes_Cons)
  qed
qed

lemma split_on_not_Nil: "split_on sep s \<noteq> []"
  by (induction s) (auto split: list.splits)

lemma segments_of_Cons_slash: "segments_of (CHR ''/'' # s) = segments_of s"
  by (simp add: segments_of_def)

lemma segments_of_dropWhile_slash: "segments_of (dropWhile (\<lambda>d. d = CHR ''/'') s) = segments_of s"
  by (induction s) (auto simp: segments_of_def)

lemma segments_of_Cons_other:
  "c \<noteq> CHR ''/'' \<Longrightarrow> segments_of (c # s) =
     (case split_on CHR ''/'' s of w # ws \<Rightarrow> (c # w) # filter (\<lambda>w. w \<noteq> []) ws | [] \<Rightarrow> [[c]])"
  by (auto simp: segments_of_def split: list.splits)

lemma split_on_collapse:
  "hd (split_on CHR ''/'' (collapse_slashes s)) = hd (split_on CHR ''/'' s) \<and>
   filter (\<lambda>w. w \<noteq> []) (tl (split_on CHR ''/'' (collapse_slashes s))) = filter (\<lambda>w. w \<noteq> []) (tl (split_on CHR ''/'' s))"
proof (induction s rule: collapse_slashes.induct)
  case 1
  then show ?case by simp
next
  case (2 c cs)
  show ?case
  proof (cases "c = CHR ''/''")
    case True
    have "segments_of (collapse_slashes (dropWhile (\<lambda>d. d = CHR ''/'') cs)) = segments_of cs"
      using 2(1)[OF True] segments_of_dropWhile_slash[of cs] split_on_not_Nil
      unfolding segments_of_def
      by (metis (no_types, lifting) filter.simps(2) list.collapse)
    with True show ?thesis by (simp add: segments_of_def)
  next
    case False
    with 2(2) show ?thesis
      by (auto split: list.splits simp: split_on_not_Nil)
  qed
qed

lemma segments_of_collapse: "segments_of (collapse_slashes s) = segments_of s"
  using split_on_collapse[of s] split_on_not_Nil unfolding segments_of_def
  by (metis (no_types, lifting) filter.simps(2) list.collapse)

lemma adjacent_slashes_snoc:
  "adjacent_slashes (ys @ [c]) \<longleftrightarrow> adjacent_slashes ys \<or> (ys \<noteq> [] \<and> last ys = CHR ''/'' \<and> c = CHR ''/'')"
  by (induction ys rule: adjacent_slashes.induct) auto

lemma rstrip_char_snoc: "rstrip_char x (ys @ [c]) = (if c = x then rstrip_char x ys else ys @ [c])"
  by (simp add: rstrip_char_def)

lemma rstrip_char_id: "ys = [] \<or> last ys \<noteq> x \<Longrightarrow> rstrip_char x ys = ys"
  by (cases ys rule: rev_cases) (auto simp: rstrip_char_def)

lemma split_on_snoc_sep: "split_on sep (ys @ [sep]) = split_on sep ys @ [[]]"
  by (induction ys) (auto split: list.splits simp: split_on_not_Nil)

lemma segments_of_snoc_slash: "segments_of (ys @ ''/'') = segments_of ys"
  using split_on_snoc_sep[of "CHR ''/''" ys] by (simp add: segments_of_def)

lemma endswith_char_iff: "endswith_char x s \<longleftrightarrow> s \<noteq> [] \<and> last s = x"
  by (cases s rule: rev_cases) (auto simp: endswith_char_def)

lemma startswith_char_iff: "startswith_char x s \<longleftrightarrow> s \<noteq> [] \<and> hd s = x"
  by (cases s) (auto simp: startswith_char_def)

text \<open>The string after the leading slash has been forced.\<close>

lemma force_leading_slash:
  assumes "n1 = (if \<not> startswith_char CHR ''/'' n0 then CHR ''/'' # n0 else n0)"
    and "\<not> adjacent_slashes n0"
  shows "n1 \<noteq> []" "hd n1 = CHR ''/''" "\<not> adjacent_slashes n1" "segments_of n1 = segments_of n0"
  using assms
  by (auto simp: startswith_char_iff adjacent_slashes_Cons segments_of_Cons_slash)

text \<open>The string after the trailing slash has been removed.\<close>

lemma strip_trailing_slash:
  assumes "n2 = (if length n1 > 1 \<and> endswith_char CHR ''/'' n1 then rstrip_char CHR ''/'' n1 else n1)"
    and "n1 \<noteq> []" "hd n1 = CHR ''/''" "\<not> adjacent_slashes n1"
  shows "n2 \<noteq> [] \<and> hd n2 = CHR ''/'' \<and> \<not> adjacent_slashes n2 \<and> segments_of n2 = segments_of n1
     \<and> (n2 \<noteq> ''/'' \<longrightarrow> last n2 \<noteq> CHR ''/'')"
proof (cases "length n1 > 1 \<and> endswith_char CHR ''/'' n1")
  case True
  then obtain ys where ys: "n1 = ys @ ''/''" "ys \<noteq> []"
    by (cases n1 rule: rev_cases) (auto simp: endswith_char_iff)
  with assms(4) have l: "last ys \<noteq> CHR ''/''" and na: "\<not> adjacent_slashes ys"
    by (auto simp: adjacent_slashes_snoc)
  have "n2 = ys"
    using assms(1) True ys l by (simp add: rstrip_char_snoc rstrip_char_id)
  moreover have "hd ys = CHR ''/''"
    using assms(3) ys by simp
  ultimately show ?thesis
    using ys l na segments_of_snoc_slash[of ys] by simp
next
  case False
  then have eq: "n2 = n1" using assms(1) by (simp only: if_False)
  have "n1 \<noteq> ''/'' \<longrightarrow> last n1 \<noteq> CHR ''/''"
  proof
    assume ne: "n1 \<noteq> ''/''"
    with assms(2,3) have "length n1 > 1" by (cases n1) auto
    with False show "last n1 \<noteq> CHR ''/''" by (auto simp: endswith_char_iff)
  qed
  with eq assms show ?thesis by simp
qed

lemma normalize_path_shape:
  "normalize_path p \<noteq> [] \<and> hd (normalize_path p) = CHR ''/'' \<and> \<not> adjacent_slashes (normalize_path p)
     \<and> segments_of (normalize_path p) = segments_of (strip p)
     \<and> (normalize_path p \<noteq> ''/'' \<longrightarrow> last (normalize_path p) \<noteq> CHR ''/'')"
proof (cases "p = []")
  case True
  then show ?thesis by (simp add: normalize_path_def strip_def segments_of_def)
next
  case False
  define n0 where "n0 = collapse_slashes (strip p)"
  define n1 where "n1 = (if \<not> startswith_char CHR ''/'' n0 then CHR ''/'' # n0 else n0)"
  define n2 where "n2 = (if length n1 > 1 \<and> endswith_char CHR ''/'' n1 then rstrip_char CHR ''/'' n1 else n1)"
  have r: "normalize_path p = n2"
    using False by (simp add: normalize_path_def n0_def n1_def n2_def Let_def)
  have a0: "\<not> adjacent_slashes n0" and s0: "segments_of n0 = segments_of (strip p)"
    by (simp_all add: n0_def collapse_slashes_no_adjacent segments_of_collapse)
  note f = force_leading_slash[OF n1_def a0]
  from strip_trailing_slash[OF n2_def f(1,2,3)] f(4) s0 r show ?thesis by simp
qed

text \<open>
  Claim C8. For every input string, \<open>_normalize_path\<close> returns a path that starts with a
  slash, has no two slashes next to each other, and does not end with a slash unless it is the
  root path \<open>/\<close>; the pieces between the slashes are those of the input without its
  surrounding white space. In particular \<open>//a//b/\<close> becomes \<open>/a/b\<close>, the empty string
  becomes \<open>/\<close>, and \<open>a\<close> becomes \<open>/a\<close>.
\<close>

theorem normalize_path_spec:
  "prefix ''/'' (normalize_path p)
   \<and> \<not> sublist ''//'' (normalize_path p)
   \<and> (normalize_path p \<noteq> ''/'' \<longrightarrow> last (normalize_path p) \<noteq> CHR ''/'')
   \<and> segments_of (normalize_path p) = segments_of (strip p)
   \<and> normalize_path ''//a//b/'' = ''/a/b''
   \<and> normalize_path '''' = ''/''
   \<and> normalize_path ''a'' = ''/a''"
proof -
  have ex: "normalize_path ''//a//b/'' = ''/a/b'' \<and> normalize_path '''' = ''/'' \<and> normalize_path ''a'' = ''/a''"
    by (simp add: normalize_path_def strip_def py_isspace_def in_range_def startswith_char_def
        endswith_char_def rstrip_char_def)
  have "prefix ''/'' (normalize_path p)"
    using normalize_path_shape[of p] by (cases "normalize_path p") auto
  with normalize_path_shape[of p] ex show ?thesis
    by (simp add: sublist_double_slash)
qed

theorem normalize_path_spec_witness:
  "normalize_path ''/service//tickets/'' \<noteq> ''/''
   \<and> last (normalize_path ''/service//tickets/'') \<noteq> CHR ''/''
   \<and> normalize_path ''/service//tickets/'' = ''/service/tickets''"
  using normalize_path_spec[of "''/service//tickets/''"]
  by (simp add: normalize_path_def strip_def py_isspace_def in_range_def startswith_char_def
        endswith_char_def rstrip_char_def)

section \<open>Properties of the segment classifier\<close>





























section \<open>Properties of the pattern match\<close>

lemma like_percent_all: "like ''%'' t"
  by (induction t) auto

lemma like_percent_iff: "like (CHR ''%'' # ps) t \<longleftrightarrow> (\<exists>a r. t = a @ r \<and> like ps r)"
proof (induction t)
  case Nil
  then show ?case by simp
next
  case (Cons c ts)
  show ?case
  proof
    assume "like (CHR ''%'' # ps) (c # ts)"
    then consider "like ps (c # ts)" | "like (CHR ''%'' # ps) ts" by auto
    then show "\<exists>a r. c # ts = a @ r \<and> like ps r"
    proof cases
      case 1
      then show ?thesis by (intro exI[of _ "[]"] exI[of _ "c # ts"]) simp
    next
      case 2
      with Cons obtain a r where "ts = a @ r" "like ps r" by auto
      then show ?thesis by (intro exI[of _ "c # a"] exI[of _ r]) simp
    qed
  next
    assume "\<exists>a r. c # ts = a @ r \<and> like ps r"
    then obtain a r where ar: "c # ts = a @ r" "like ps r" by auto
    show "like (CHR ''%'' # ps) (c # ts)"
    proof (cases a)
      case Nil
      with ar show ?thesis by simp
    next
      case (Cons x xs)
      with ar have "ts = xs @ r" by simp
      with ar(2) Cons.IH have "like (CHR ''%'' # ps) ts" by auto
      then show ?thesis by simp
    qed
  qed
qed

lemma like_literal_iff:
  "\<forall>c\<in>set tok. \<not> like_special c \<Longrightarrow> like (tok @ ps) t \<longleftrightarrow> (\<exists>r. t = tok @ r \<and> like ps r)"
proof (induction tok arbitrary: t)
  case Nil
  then show ?case by simp
next
  case (Cons x xs)
  then have x: "x \<noteq> CHR ''%''" "x \<noteq> CHR ''_''" "x \<noteq> CHR 0x5C"
    by (auto simp: like_special_def)
  from Cons have IH: "\<And>t. like (xs @ ps) t \<longleftrightarrow> (\<exists>r. t = xs @ r \<and> like ps r)" by simp
  show ?case
    using x by (cases t) (auto simp: IH)
qed

lemma like_contains:
  assumes "\<forall>c\<in>set tok. \<not> like_special c"
  shows "like (''%'' @ tok @ ''%'') t \<longleftrightarrow> sublist tok t"
proof -
  have "like (''%'' @ tok @ ''%'') t \<longleftrightarrow> (\<exists>a r. t = a @ r \<and> like (tok @ ''%'') r)"
    using like_percent_iff[of "tok @ ''%''" t] by simp
  also have "\<dots> \<longleftrightarrow> (\<exists>a r'. t = a @ tok @ r')"
    using like_literal_iff[OF assms, of "''%''"] like_percent_all by auto
  finally show ?thesis by (simp add: sublist_def)
qed

lemma py_lower_char_not_special: "\<not> like_special c \<Longrightarrow> \<not> like_special (py_lower_char c)"
  by (cases c) (auto simp: py_lower_char_def like_special_def in_range_def)

lemma py_lower_char_idem: "py_lower_char (py_lower_char c) = py_lower_char c"
  by (cases c) (auto simp: py_lower_char_def in_range_def)

lemma lower_idem: "lower (lower s) = lower s"
  by (simp add: lower_def py_lower_char_idem)

lemma ilike_contains:
  assumes "\<forall>c\<in>set tok. \<not> like_special c"
  shows "ilike (''%'' @ tok @ ''%'') t \<longleftrightarrow> sublist (lower tok) (lower t)"
proof -
  have "\<forall>c\<in>set (lower tok). \<not> like_special c"
    using assms py_lower_char_not_special by (auto simp: lower_def)
  from like_contains[OF this, of "lower t"] show ?thesis
    by (simp add: ilike_def lower_def py_lower_char_def in_range_def)
qed

lemma matches_any_field_token:
  assumes "\<forall>c\<in>set tok. \<not> like_special c"
  shows "matches_any_field (''%'' @ tok @ ''%'') e = token_match_ignoring_case tok e"
  using ilike_contains[OF assms]
  by (simp add: matches_any_field_def token_match_ignoring_case_def ilike_col_def
      holds_token_ignoring_case_def split: option.splits)


section \<open>Properties of the tiered search\<close>





lemma keyword_search_returns:
  assumes "link db = Ready" "0 \<le> limit_val" "limit_val \<le> BIGINT_MAX"
  shows "\<exists>rows. keyword_search db query_lower limit_val = Inr rows"
  using assms
  by (cases "filtered_keywords query_lower")
     (auto simp: keyword_search_def get_session_def reraise_as_exception_def sql_limit_def)

text \<open>The search is the keyword search once both ranked tiers have left no rows.\<close>

lemma search_by_natural_language_fallback:
  assumes "has_fulltext_search db \<longrightarrow>
      ranked_tier db (websearch_by_rank_cd db) (strip (lower query)) limit_val = []
      \<and> ranked_tier db (plainto_by_rank db) (strip (lower query)) limit_val = []"
  shows "search_by_natural_language db query limit_val
     = (if strip (lower query) = [] then Inr [] else keyword_search db (strip (lower query)) limit_val)"
  using assms by (auto simp: search_by_natural_language_def Let_def)

lemma search_by_natural_language_cases:
  "search_by_natural_language db query limit_val = Inr []
   \<or> search_by_natural_language db query limit_val
        = Inr (ranked_tier db (websearch_by_rank_cd db) (strip (lower query)) limit_val)
   \<or> search_by_natural_language db query limit_val
        = Inr (ranked_tier db (plainto_by_rank db) (strip (lower query)) limit_val)
   \<or> search_by_natural_language db query limit_val = keyword_search db (strip (lower query)) limit_val"
  by (auto simp: search_by_natural_language_def Let_def)


lemma search_by_natural_language_returns:
  assumes "link db = Ready" "0 \<le> limit_val" "limit_val \<le> BIGINT_MAX"
  shows "\<exists>rows. search_by_natural_language db query limit_val = Inr rows"
  using search_by_natural_language_cases[of db query limit_val]
    keyword_search_returns[OF assms, of "strip (lower query)"]
  by (elim disjE) auto

lemma has_fulltext_search_update [simp]:
  "has_fulltext_search (db\<lparr>websearch_by_rank_cd := f\<rparr>) = has_fulltext_search db"
  "has_fulltext_search (db\<lparr>plainto_by_rank := g\<rparr>) = has_fulltext_search db"
  by (simp_all add: has_fulltext_search_def)

lemma ranked_tier_update [simp]:
  "ranked_tier (db\<lparr>websearch_by_rank_cd := f\<rparr>) statement query limit_val
     = ranked_tier db statement query limit_val"
  "ranked_tier (db\<lparr>plainto_by_rank := g\<rparr>) statement query limit_val
     = ranked_tier db statement query limit_val"
  by (simp_all add: ranked_tier_def)

lemma keyword_search_update [simp]:
  "keyword_search (db\<lparr>websearch_by_rank_cd := f\<rparr>) query_lower limit_val
     = keyword_search db query_lower limit_val"
  "keyword_search (db\<lparr>plainto_by_rank := g\<rparr>) query_lower limit_val
     = keyword_search db query_lower limit_val"
  by (simp_all add: keyword_search_def split: list.splits)






lemmas search_eval_defs = search_by_natural_language_def has_fulltext_search_def ranked_tier_def
  keyword_search_def filtered_keywords_def stopwords_def get_session_def reraise_as_exception_def
  sql_limit_def BIGINT_MAX_def matches_any_field_def field_priority_def ilike_def ilike_col_def lower_def strip_def
  py_lower_char_def py_isspace_def in_range_def




subsection \<open>The plain search\<close>

lemma search_endpoints_fallback:
  assumes "link db = Ready" "\<not> has_vector_data db"
  shows "search_endpoints db query
     = Inr (sort_key category_then_path (filter (matches_any_field (''%'' @ query @ ''%'')) (endpoints db)))"
  using assms
  by (simp add: search_endpoints_def has_fulltext_search_def get_session_def reraise_as_exception_def)

lemma wide_catalog_row_matches:
  "matches_any_field ''%a%'' (mk_endpoint (int i) (CHR ''/'' # replicate (Suc i) CHR ''a'') ''get'' ''Get'')"
proof -
  have n: "\<forall>c\<in>set ''a''. \<not> like_special c" by (simp add: like_special_def)
  have "lower (CHR ''/'' # replicate (Suc i) CHR ''a'') = CHR ''/'' # CHR ''a'' # replicate i CHR ''a''"
    by (simp add: lower_def py_lower_char_def in_range_def)
  moreover have "lower ''a'' = ''a''"
    by (simp add: lower_def py_lower_char_def in_range_def)
  moreover have "sublist ''a'' (CHR ''/'' # CHR ''a'' # replicate i CHR ''a'')"
    by (simp add: sublist_Cons_right)
  ultimately have "ilike ''%a%'' (CHR ''/'' # replicate (Suc i) CHR ''a'')"
    using ilike_contains[OF n, of "CHR ''/'' # replicate (Suc i) CHR ''a''"] by simp
  then show ?thesis by (simp add: matches_any_field_def mk_endpoint_def)
qed

text \<open>
  Claim C1 at a catalog of 51 endpoints without a full-text index and the query \<open>a\<close>, which
  occurs in every path: \<open>search_endpoints\<close> returns all 51 rows, more than the 50 the claim
  allows. The statement of the fallback has no \<open>LIMIT\<close>.
\<close>

theorem search_endpoints_returns_51:
  "length (endpoints wide_catalog) = 51
   \<and> map_sum id length (search_endpoints wide_catalog ''a'') = Inr 51"
proof -
  let ?rows = "map (\<lambda>i. mk_endpoint (int i) (CHR ''/'' # replicate (Suc i) CHR ''a'') ''get'' ''Get'') [0..<51]"
  have e: "endpoints wide_catalog = ?rows" and l: "link wide_catalog = Ready"
    and v: "\<not> has_vector_data wide_catalog"
    by (simp_all add: wide_catalog_def catalog_of_def)
  have "filter (matches_any_field ''%a%'') ?rows = ?rows"
    using wide_catalog_row_matches by (simp add: filter_map o_def)
  with search_endpoints_fallback[OF l v, of "''a''"] e
  have "search_endpoints wide_catalog ''a'' = Inr (sort_key category_then_path ?rows)"
    by simp
  then have "map_sum id length (search_endpoints wide_catalog ''a'') = Inr (length ?rows)"
    by (simp del: upt_Suc)
  with e show ?thesis by (simp del: upt_Suc)
qed


subsection \<open>The keyword search\<close>

lemma split_ws_chars: "w \<in> set (split_ws s) \<Longrightarrow> set w \<subseteq> set s"
proof (induction s arbitrary: w rule: split_ws.induct)
  case 1
  then show ?case by simp
next
  case (2 c cs)
  show ?case
  proof (cases "py_isspace c")
    case True
    with 2 show ?thesis by auto
  next
    case False
    with 2(3) consider "w = c # takeWhile (\<lambda>d. \<not> py_isspace d) cs"
      | "w \<in> set (split_ws (dropWhile (\<lambda>d. \<not> py_isspace d) cs))" by auto
    then show ?thesis
    proof cases
      case 1
      then show ?thesis by (auto dest: set_takeWhileD)
    next
      case 2
      from "2.IH"(2)[OF False this] show ?thesis by (auto dest: set_dropWhileD)
    qed
  qed
qed

lemma strip_chars: "set (strip s) \<subseteq> set s"
  by (auto simp: strip_def dest!: set_dropWhileD)

lemma filtered_keywords_shape:
  assumes "token \<in> set (filtered_keywords (strip (lower query)))"
  shows "token \<notin> set stopwords" "3 \<le> length token" "lower token = token"
proof -
  from assms show "token \<notin> set stopwords" "3 \<le> length token"
    by (simp_all add: filtered_keywords_def)
  from assms have "set token \<subseteq> set (lower query)"
    using split_ws_chars[of token "strip (lower query)"] strip_chars[of "lower query"]
    by (auto simp: filtered_keywords_def)
  then have "\<forall>c\<in>set token. py_lower_char c = c"
    by (auto simp: lower_def py_lower_char_idem)
  then show "lower token = token"
    by (simp add: lower_def map_idI)
qed

lemma keyword_search_rows:
  assumes "keyword_search db query_lower limit_val = Inr rows"
    and "filtered_keywords query_lower = first_keyword # more_keywords"
  shows "0 \<le> limit_val"
    and "rows = take (nat limit_val)
          (sort_key (field_priority (''%'' @ first_keyword @ ''%''))
             (filter (\<lambda>e. list_ex (\<lambda>keyword. matches_any_field (''%'' @ keyword @ ''%'') e)
                            (filtered_keywords query_lower))
                (endpoints db)))"
  using assms
  by (cases "link db"; auto simp: keyword_search_def get_session_def reraise_as_exception_def
      sql_limit_def split: if_splits)+

lemma keyword_search_sound:
  assumes "keyword_search db query_lower limit_val = Inr rows"
    and "filtered_keywords query_lower = first_keyword # more_keywords"
  shows "\<forall>e\<in>set rows. e \<in> set (endpoints db)
           \<and> (\<exists>token\<in>set (filtered_keywords query_lower). matches_any_field (''%'' @ token @ ''%'') e)"
    and "sorted (map (field_priority (''%'' @ first_keyword @ ''%'')) rows)"
    and "int (length rows) \<le> limit_val"
proof -
  let ?f = "field_priority (''%'' @ first_keyword @ ''%'')"
  let ?m = "filter (\<lambda>e. list_ex (\<lambda>keyword. matches_any_field (''%'' @ keyword @ ''%'') e)
                            (filtered_keywords query_lower)) (endpoints db)"
  note r = keyword_search_rows[OF assms]
  have "set rows \<subseteq> set (sort_key ?f ?m)"
    unfolding r(2) by (rule set_take_subset)
  then show "\<forall>e\<in>set rows. e \<in> set (endpoints db)
           \<and> (\<exists>token\<in>set (filtered_keywords query_lower). matches_any_field (''%'' @ token @ ''%'') e)"
    by (auto simp: list_ex_iff)
  have "sorted (map ?f (sort_key ?f ?m))" by (rule sorted_sort_key)
  then have "sorted (take (nat limit_val) (map ?f (sort_key ?f ?m)))"
    by (rule sorted_wrt_take)
  then show "sorted (map ?f rows)"
    unfolding r(2) by (simp add: take_map)
  show "int (length rows) \<le> limit_val"
    using r(1) unfolding r(2) by simp
qed

text \<open>
  Claim C7, as the code has it. When both ranked tiers of \<open>search_by_natural_language\<close>
  leave no rows, the keyword search lower-cases the query and splits it at white space, drops
  stopwords and tokens shorter than 3 characters, and returns the empty list when no token
  remains. Otherwise the rows it returns are rows of the catalog, ordered by the field
  priority of the first remaining token (summary, then description, then path, then tags,
  then none), and at most \<open>limit\<close> many; when no remaining token has one of the characters
  \<open>%\<close>, \<open>_\<close> and backslash, each returned row has some remaining token in its path,
  description, tags or summary, upper and lower case taken as equal. With a working
  connection and a limit from 0 to the largest \<open>bigint\<close> the call returns a list.
\<close>

theorem keyword_fallback_amended:
  assumes "has_fulltext_search db \<longrightarrow>
      ranked_tier db (websearch_by_rank_cd db) (strip (lower query)) limit_val = []
      \<and> ranked_tier db (plainto_by_rank db) (strip (lower query)) limit_val = []"
  shows "(filtered_keywords (strip (lower query)) = [] \<longrightarrow>
            search_by_natural_language db query limit_val = Inr [])
    \<and> (\<forall>token\<in>set (filtered_keywords (strip (lower query))).
          token \<notin> set stopwords \<and> 3 \<le> length token \<and> lower token = token)
    \<and> (\<forall>rows first_keyword more_keywords.
          search_by_natural_language db query limit_val = Inr rows
          \<and> filtered_keywords (strip (lower query)) = first_keyword # more_keywords \<longrightarrow>
            set rows \<subseteq> set (endpoints db)
            \<and> sorted (map (field_priority (''%'' @ first_keyword @ ''%'')) rows)
            \<and> int (length rows) \<le> limit_val
            \<and> ((\<forall>token\<in>set (filtered_keywords (strip (lower query))). \<forall>c\<in>set token. \<not> like_special c) \<longrightarrow>
                 (\<forall>e\<in>set rows. \<exists>token\<in>set (filtered_keywords (strip (lower query))).
                    token_match_ignoring_case token e)))
    \<and> (link db = Ready \<and> 0 \<le> limit_val \<and> limit_val \<le> BIGINT_MAX \<longrightarrow>
          (\<exists>rows. search_by_natural_language db query limit_val = Inr rows))"
proof -
  let ?ql = "strip (lower query)"
  note fb = search_by_natural_language_fallback[OF assms]
  have 1: "filtered_keywords ?ql = [] \<longrightarrow> search_by_natural_language db query limit_val = Inr []"
    by (simp add: fb keyword_search_def)
  have 2: "\<forall>token\<in>set (filtered_keywords ?ql).
          token \<notin> set stopwords \<and> 3 \<le> length token \<and> lower token = token"
    using filtered_keywords_shape by blast
  have 3: "set rows \<subseteq> set (endpoints db)
            \<and> sorted (map (field_priority (''%'' @ first_keyword @ ''%'')) rows)
            \<and> int (length rows) \<le> limit_val
            \<and> ((\<forall>token\<in>set (filtered_keywords ?ql). \<forall>c\<in>set token. \<not> like_special c) \<longrightarrow>
                 (\<forall>e\<in>set rows. \<exists>token\<in>set (filtered_keywords ?ql). token_match_ignoring_case token e))"
    if h: "search_by_natural_language db query limit_val = Inr rows"
      "filtered_keywords ?ql = first_keyword # more_keywords"
    for rows first_keyword more_keywords
  proof -
    have ne: "?ql \<noteq> []"
      using h(2) by (auto simp: filtered_keywords_def)
    with fb h(1) have k: "keyword_search db ?ql limit_val = Inr rows" by simp
    note s = keyword_search_sound[OF k h(2)]
    have "\<forall>e\<in>set rows. \<exists>token\<in>set (filtered_keywords ?ql). token_match_ignoring_case token e"
      if "\<forall>token\<in>set (filtered_keywords ?ql). \<forall>c\<in>set token. \<not> like_special c"
      using s(1) that matches_any_field_token by blast
    with s show ?thesis by blast
  qed
  have 4: "link db = Ready \<and> 0 \<le> limit_val \<and> limit_val \<le> BIGINT_MAX \<longrightarrow>
          (\<exists>rows. search_by_natural_language db query limit_val = Inr rows)"
    using search_by_natural_language_returns[of db limit_val query] by blast
  from 1 2 3 4 show ?thesis by blast
qed

lemma associations_search:
  "search_by_natural_language ticket_catalog ''Show me the Associations'' 5
     = Inr [mk_endpoint 4 ''/company/typeAssociations'' ''get'' ''Get Type Associations'']"
  "filtered_keywords (strip (lower ''Show me the Associations'')) = [''associations'']"
  by (simp_all add: search_eval_defs ticket_catalog_def catalog_of_def mk_endpoint_def Let_def)

theorem keyword_fallback_amended_witness:
  "\<not> has_fulltext_search ticket_catalog
   \<and> filtered_keywords (strip (lower ''Show me the Associations'')) = [''associations'']
   \<and> search_by_natural_language ticket_catalog ''Show me the Associations'' 5
        = Inr [mk_endpoint 4 ''/company/typeAssociations'' ''get'' ''Get Type Associations'']
   \<and> \<not> list_ex like_special ''associations''
   \<and> token_match_ignoring_case ''associations''
        (mk_endpoint 4 ''/company/typeAssociations'' ''get'' ''Get Type Associations'')
   \<and> link ticket_catalog = Ready \<and> (0::int) \<le> 5 \<and> (5::int) \<le> BIGINT_MAX"
proof -
  have a: "\<not> has_fulltext_search ticket_catalog"
    by (simp add: has_fulltext_search_def ticket_catalog_def catalog_of_def get_session_def)
  then have h: "has_fulltext_search ticket_catalog \<longrightarrow>
      ranked_tier ticket_catalog (websearch_by_rank_cd ticket_catalog)
        (strip (lower ''Show me the Associations'')) 5 = []
      \<and> ranked_tier ticket_catalog (plainto_by_rank ticket_catalog)
        (strip (lower ''Show me the Associations'')) 5 = []"
    by simp
  have n: "\<not> list_ex like_special ''associations''"
    by (simp add: like_special_def)
  have l: "link ticket_catalog = Ready"
    by (simp add: ticket_catalog_def catalog_of_def)
  from keyword_fallback_amended[OF h] associations_search n
  have "token_match_ignoring_case ''associations''
        (mk_endpoint 4 ''/company/typeAssociations'' ''get'' ''Get Type Associations'')"
    by (auto simp: list_ex_iff)
  with a associations_search n l show ?thesis by (simp add: BIGINT_MAX_def)
qed

text \<open>
  Claim C7 as the specification words it fails. The small catalog has no full-text index; for
  the query \<open>Show me the Associations\<close> the one remaining token is \<open>associations\<close>, and the
  search returns the endpoint \<open>/company/typeAssociations\<close> with the summary
  \<open>Get Type Associations\<close>, none of whose fields has the token as a substring.
\<close>

theorem keyword_fallback_counterexample:
  "\<not> has_fulltext_search ticket_catalog
   \<and> filtered_keywords (strip (lower ''Show me the Associations'')) = [''associations'']
   \<and> search_by_natural_language ticket_catalog ''Show me the Associations'' 5
        = Inr [mk_endpoint 4 ''/company/typeAssociations'' ''get'' ''Get Type Associations'']
   \<and> \<not> spec_token_match ''associations''
        (mk_endpoint 4 ''/company/typeAssociations'' ''get'' ''Get Type Associations'')"
proof -
  have a: "\<not> has_fulltext_search ticket_catalog"
    by (simp add: has_fulltext_search_def ticket_catalog_def catalog_of_def get_session_def)
  have s: "\<not> spec_token_match ''associations''
        (mk_endpoint 4 ''/company/typeAssociations'' ''get'' ''Get Type Associations'')"
    by (simp add: spec_token_match_def holds_token_def mk_endpoint_def sublist_Cons_right)
  from a s associations_search show ?thesis by simp
qed


section \<open>Properties of the saved-query store\<close>

lemma find_map_id:
  assumes "\<And>q. q_id (f q) = q_id q"
  shows "find (\<lambda>q. q_id q = i) (map f rows) = map_option f (find (\<lambda>q. q_id q = i) rows)"
  using assms by (induction rows) auto

lemma find_filter_other:
  "i \<noteq> d \<Longrightarrow> find (\<lambda>q. q_id q = i) (filter (\<lambda>q. q_id q \<noteq> d) rows) = find (\<lambda>q. q_id q = i) rows"
  by (induction rows) auto

lemma find_filter_same:
  "find (\<lambda>q. q_id q = d) (filter (\<lambda>q. q_id q \<noteq> d) rows) = None"
  by (induction rows) auto

lemma find_append_Some:
  "find P xs = Some x \<Longrightarrow> find P (xs @ ys) = Some x"
  by (induction xs) (auto split: if_splits)

lemma find_append_None:
  "find P xs = None \<Longrightarrow> find P (xs @ ys) = find P ys"
  by (induction xs) (auto split: if_splits)

lemma save_query_monotonic:
  assumes "row_with_id db i = Some q"
    and "row_with_id (snd (save_query db now description path method params data)) i = Some q'"
  shows "q_usage_count q \<le> q_usage_count q'"
proof (cases "cq_link db = Ready")
  case False
  with assms show ?thesis
    by (cases "cq_link db") (auto simp: save_query_def get_session_def)
next
  case True
  show ?thesis
  proof (cases "find (\<lambda>q. q_path q = path \<and> q_method q = method) (saved_queries db)")
    case None
    with assms True show ?thesis
      by (auto simp: save_query_def get_session_def row_with_id_def find_append_Some
          split: if_splits)
  next
    case (Some existing)
    let ?f = "\<lambda>q. if q_id q = q_id existing
                 then q\<lparr>q_usage_count := q_usage_count q + 1, q_timestamp := now,
                        q_params := params, q_data := data, q_description := description\<rparr>
                 else q"
    have f: "\<And>q. q_id (?f q) = q_id q" by simp
    show ?thesis
    proof (cases "q_usage_count existing + 1 > INT_MAX")
      case True
      with assms \<open>cq_link db = Ready\<close> Some show ?thesis
        by (simp add: save_query_def get_session_def)
    next
      case False
      with \<open>cq_link db = Ready\<close> Some
      have "saved_queries (snd (save_query db now description path method params data))
          = map ?f (saved_queries db)"
        by (simp add: save_query_def get_session_def)
      with assms have "q' = ?f q"
        by (simp add: row_with_id_def find_map_id[of ?f, OF f])
      then show ?thesis by (simp split: if_splits)
    qed
  qed
qed

lemma increment_usage_monotonic:
  assumes "row_with_id db i = Some q"
    and "row_with_id (snd (increment_usage db now query_id)) i = Some q'"
  shows "q_usage_count q \<le> q_usage_count q'"
proof (cases "cq_link db = Ready
    \<and> \<not> list_ex (\<lambda>q. q_id q = query_id \<and> q_usage_count q + 1 > INT_MAX) (saved_queries db)")
  case False
  with assms show ?thesis
    by (cases "cq_link db") (auto simp: increment_usage_def get_session_def)
next
  case True
  let ?f = "\<lambda>q. if q_id q = query_id
               then q\<lparr>q_usage_count := q_usage_count q + 1, q_timestamp := now\<rparr> else q"
  have f: "\<And>q. q_id (?f q) = q_id q" by simp
  from True have "saved_queries (snd (increment_usage db now query_id)) = map ?f (saved_queries db)"
    by (simp add: increment_usage_def get_session_def)
  with assms have "q' = ?f q"
    by (simp add: row_with_id_def find_map_id[of ?f, OF f])
  then show ?thesis by (simp split: if_splits)
qed

lemma delete_query_monotonic:
  assumes "row_with_id db i = Some q"
    and "row_with_id (snd (delete_query db query_id)) i = Some q'"
  shows "q_usage_count q \<le> q_usage_count q'"
  using assms
  by (cases "cq_link db"; cases "i = query_id")
     (auto simp: delete_query_def get_session_def row_with_id_def find_filter_other find_filter_same)

lemma clear_all_monotonic:
  assumes "row_with_id db i = Some q"
    and "row_with_id (snd (clear_all db)) i = Some q'"
  shows "q_usage_count q \<le> q_usage_count q'"
  using assms
  by (cases "cq_link db") (auto simp: clear_all_def get_session_def row_with_id_def)

text \<open>
  Claim C9. For every operation of the saved-query store (\<open>save_query\<close>, \<open>find_query\<close>,
  \<open>search_queries\<close>, \<open>get_all_queries\<close>, \<open>increment_usage\<close>, \<open>delete_query\<close>, \<open>clear_all\<close>)
  and every id that has a row before and after the operation, the row's \<open>usage_count\<close>
  after the operation is at least its \<open>usage_count\<close> before.
\<close>

theorem usage_count_monotonic:
  assumes "row_with_id db i = Some q"
    and "row_with_id (store_after db op) i = Some q'"
  shows "q_usage_count q \<le> q_usage_count q'"
proof (cases op)
  case (SaveQuery now description path http_method query_params data)
  with assms show ?thesis using save_query_monotonic by simp
next
  case (FindQuery path http_method)
  with assms show ?thesis by (simp add: find_query_def)
next
  case (SearchQueries search_term)
  with assms show ?thesis by (simp add: search_queries_def Let_def)
next
  case GetAllQueries
  with assms show ?thesis by (simp add: get_all_queries_def)
next
  case (IncrementUsage now query_id)
  with assms show ?thesis using increment_usage_monotonic by simp
next
  case (DeleteQuery query_id)
  with assms show ?thesis using delete_query_monotonic by simp
next
  case ClearAll
  with assms show ?thesis using clear_all_monotonic by simp
qed

theorem usage_count_monotonic_witness:
  "row_with_id ticket_store 1 = Some (hd (saved_queries ticket_store))
   \<and> row_with_id (store_after ticket_store (IncrementUsage 1700000100 1)) 1
       = Some ((hd (saved_queries ticket_store))\<lparr>q_usage_count := 4, q_timestamp := 1700000100\<rparr>)
   \<and> q_usage_count (hd (saved_queries ticket_store)) = 3
   \<and> q_usage_count (hd (saved_queries ticket_store))
       \<le> q_usage_count ((hd (saved_queries ticket_store))\<lparr>q_usage_count := 4, q_timestamp := 1700000100\<rparr>)"
proof -
  have a: "row_with_id ticket_store 1 = Some (hd (saved_queries ticket_store))"
    by (simp add: row_with_id_def ticket_store_def)
  have b: "row_with_id (store_after ticket_store (IncrementUsage 1700000100 1)) 1
      = Some ((hd (saved_queries ticket_store))\<lparr>q_usage_count := 4, q_timestamp := 1700000100\<rparr>)"
    by (simp add: row_with_id_def ticket_store_def increment_usage_def get_session_def INT_MAX_def)
  have c: "q_usage_count (hd (saved_queries ticket_store)) = 3"
    by (simp add: ticket_store_def)
  from usage_count_monotonic[OF a b] a b c show ?thesis by (intro conjI)
qed

lemma filter_pair_empty:
  "find P rows = None \<Longrightarrow> filter P rows = []"
  by (induction rows) (auto split: if_splits)

lemma map_no_id:
  "\<not> list_ex (\<lambda>q. q_id q = i) rows \<Longrightarrow> map (\<lambda>q. if q_id q = i then g q else q) rows = rows"
  by (induction rows) auto

text \<open>The first save of a pair that has no row inserts one.\<close>

lemma save_query_insert:
  assumes "rows_for db path method = []"
    and "save_query db now description path method params data = (Inr i, db')"
  shows "i = next_id db" "\<not> list_ex (\<lambda>q. q_id q = i) (saved_queries db)" "cq_link db' = Ready"
    "saved_queries db' = saved_queries db @
       [\<lparr>q_id = i, q_description = description, q_path = path, q_method = method,
         q_params = params, q_data = data, q_timestamp = now, q_usage_count = 1\<rparr>]"
proof -
  have n: "find (\<lambda>q. q_path q = path \<and> q_method q = method) (saved_queries db) = None"
    using assms(1) by (auto simp: rows_for_def find_None_iff filter_empty_conv)
  from assms(2) have r: "cq_link db = Ready"
    by (cases "cq_link db") (auto simp: save_query_def get_session_def)
  from assms(2) n r show "i = next_id db"
    by (auto simp: save_query_def get_session_def split: if_splits)
  from assms(2) n r show "\<not> list_ex (\<lambda>q. q_id q = i) (saved_queries db)"
    by (auto simp: save_query_def get_session_def split: if_splits)
  from assms(2) n r show "cq_link db' = Ready"
    by (auto simp: save_query_def get_session_def split: if_splits)
  from assms(2) n r show "saved_queries db' = saved_queries db @
       [\<lparr>q_id = i, q_description = description, q_path = path, q_method = method,
         q_params = params, q_data = data, q_timestamp = now, q_usage_count = 1\<rparr>]"
    by (auto simp: save_query_def get_session_def split: if_splits)
qed

text \<open>
  Claim C3. Starting from a store with no row for a (path, method) pair, two calls of
  \<open>save_query\<close> with that pair that both return leave exactly one row for the pair: its
  \<open>usage_count\<close> is 2, its description, params and data are those of the second call, and
  its id is the id that both calls return.
\<close>

theorem save_query_twice:
  assumes "rows_for db path method = []"
    and "save_query db now1 description1 path method params1 data1 = (Inr id1, db1)"
    and "save_query db1 now2 description2 path method params2 data2 = (Inr id2, db2)"
  shows "id1 = id2 \<and>
     rows_for db2 path method =
       [\<lparr>q_id = id1, q_description = description2, q_path = path, q_method = method,
         q_params = params2, q_data = data2, q_timestamp = now2, q_usage_count = 2\<rparr>]"
proof -
  let ?P = "\<lambda>q. q_path q = path \<and> q_method q = method"
  let ?new = "\<lparr>q_id = id1, q_description = description1, q_path = path, q_method = method,
         q_params = params1, q_data = data1, q_timestamp = now1, q_usage_count = 1\<rparr>"
  let ?f = "\<lambda>q. if q_id q = id1
               then q\<lparr>q_usage_count := q_usage_count q + 1, q_timestamp := now2,
                      q_params := params2, q_data := data2, q_description := description2\<rparr>
               else q"
  note ins = save_query_insert[OF assms(1,2)]
  have n: "find ?P (saved_queries db) = None"
    using assms(1) by (auto simp: rows_for_def find_None_iff filter_empty_conv)
  have ex: "find ?P (saved_queries db1) = Some ?new"
    using ins(4) find_append_None[OF n, of "[?new]"] by simp
  from assms(3) ex ins(3)
  have r: "id2 = id1" "saved_queries db2 = map ?f (saved_queries db1)"
    by (auto simp: save_query_def get_session_def INT_MAX_def split: if_splits)
  have "map ?f (saved_queries db) = saved_queries db"
    using map_no_id[OF ins(2)] by simp
  with r(2) ins(4) have "saved_queries db2 = saved_queries db @ [?f ?new]" by simp
  moreover have "filter ?P (saved_queries db) = []"
    using filter_pair_empty[OF n] .
  ultimately have "rows_for db2 path method = [?f ?new]"
    by (simp add: rows_for_def)
  with r(1) show ?thesis by simp
qed

theorem save_query_twice_witness:
  "rows_for ticket_store ''/finance/invoices'' ''GET'' = []
   \<and> save_query ticket_store 1700000100 ''first'' ''/finance/invoices'' ''GET'' None None
       = (Inr 2, snd (save_query ticket_store 1700000100 ''first'' ''/finance/invoices'' ''GET'' None None))
   \<and> fst (save_query (snd (save_query ticket_store 1700000100 ''first'' ''/finance/invoices'' ''GET'' None None))
       1700000200 ''second'' ''/finance/invoices'' ''GET'' (Some ''p'') (Some ''d'')) = Inr 2
   \<and> rows_for (snd (save_query (snd (save_query ticket_store 1700000100 ''first'' ''/finance/invoices'' ''GET'' None None))
       1700000200 ''second'' ''/finance/invoices'' ''GET'' (Some ''p'') (Some ''d''))) ''/finance/invoices'' ''GET''
     = [\<lparr>q_id = 2, q_description = ''second'', q_path = ''/finance/invoices'', q_method = ''GET'',
         q_params = Some ''p'', q_data = Some ''d'', q_timestamp = 1700000200, q_usage_count = 2\<rparr>]"
proof -
  define db1 where "db1 = snd (save_query ticket_store 1700000100 ''first'' ''/finance/invoices'' ''GET'' None None)"
  define db2 where "db2 = snd (save_query db1 1700000200 ''second'' ''/finance/invoices'' ''GET'' (Some ''p'') (Some ''d''))"
  have a: "rows_for ticket_store ''/finance/invoices'' ''GET'' = []"
    by (simp add: rows_for_def ticket_store_def)
  have b: "save_query ticket_store 1700000100 ''first'' ''/finance/invoices'' ''GET'' None None = (Inr 2, db1)"
    unfolding db1_def by (simp add: save_query_def get_session_def ticket_store_def INT_MAX_def)
  have c: "save_query db1 1700000200 ''second'' ''/finance/invoices'' ''GET'' (Some ''p'') (Some ''d'') = (Inr 2, db2)"
    unfolding db2_def db1_def by (simp add: save_query_def get_session_def ticket_store_def INT_MAX_def)
  from save_query_twice[OF a b c]
  have d: "rows_for db2 ''/finance/invoices'' ''GET''
     = [\<lparr>q_id = 2, q_description = ''second'', q_path = ''/finance/invoices'', q_method = ''GET'',
         q_params = Some ''p'', q_data = Some ''d'', q_timestamp = 1700000200, q_usage_count = 2\<rparr>]"
    by simp
  from c have e: "fst (save_query db1 1700000200 ''second'' ''/finance/invoices'' ''GET'' (Some ''p'') (Some ''d'')) = Inr 2"
    by simp
  from a b e d show ?thesis
    unfolding db2_def db1_def by (intro conjI)
qed

text \<open>
  Claim C2 at a store that holds the row with id 1. \<open>delete_query\<close> removes the row, and
  what it returns is Python's \<open>None\<close>, not the boolean \<open>True\<close> that the claim and the
  docstring of the function promise.
\<close>

theorem delete_query_returns_none:
  "row_with_id ticket_store 1 \<noteq> None
   \<and> fst (delete_query ticket_store 1) = Inr None
   \<and> fst (delete_query ticket_store 1) \<noteq> Inr (Some True)
   \<and> row_with_id (snd (delete_query ticket_store 1)) 1 = None"
  by (simp add: delete_query_def get_session_def ticket_store_def row_with_id_def)

section \<open>Properties of the endpoint resolver\<close>

lemma like_refl: "CHR 0x5C \<notin> set p \<Longrightarrow> like p p"
proof (induction p)
  case Nil
  then show ?case by simp
next
  case (Cons c cs)
  then have IH: "like cs cs" by simp
  show ?case
  proof (cases "c = CHR ''%''")
    case True
    have "\<exists>a r. CHR ''%'' # cs = a @ r \<and> like cs r"
      using IH by (intro exI[of _ "''%''"] exI[of _ cs]) simp
    with True show ?thesis using like_percent_iff[of cs "CHR ''%'' # cs"] by simp
  next
    case False
    from Cons.prems have "c \<noteq> CHR 0x5C" by auto
    with False IH show ?thesis by simp
  qed
qed

lemma py_lower_char_backslash: "py_lower_char c = CHR 0x5C \<Longrightarrow> c = CHR 0x5C"
  by (cases c) (auto simp: py_lower_char_def in_range_def split: if_splits)

lemma lower_no_backslash: "CHR 0x5C \<notin> set p \<Longrightarrow> CHR 0x5C \<notin> set (lower p)"
  by (auto simp: lower_def dest: py_lower_char_backslash[OF sym])

lemma ilike_refl: "CHR 0x5C \<notin> set p \<Longrightarrow> ilike p p"
  by (simp add: ilike_def like_refl lower_no_backslash)

lemma dangling_escape_backslash: "dangling_escape p \<Longrightarrow> CHR 0x5C \<in> set p"
  by (induction p rule: dangling_escape.induct) (auto split: if_splits)

lemma find_unique:
  assumes "x \<in> set xs" "P x" "\<forall>y\<in>set xs. P y \<longrightarrow> y = x"
  shows "find P xs = Some x"
proof -
  from assms(1,2) obtain y where y: "find P xs = Some y"
    by (cases "find P xs") (auto simp: find_None_iff)
  then have "y \<in> set xs" "P y"
    by (auto simp: find_Some_iff)
  with assms(3) y show ?thesis by auto
qed

lemma find_by_id:
  assumes "distinct (map e_id rows)" "row \<in> set rows"
  shows "find (\<lambda>e. e_id e = e_id row) rows = Some row"
  using assms
  by (intro find_unique) (auto simp: distinct_map inj_on_def)


lemma get_endpoint_details_row:
  assumes "link db = Ready" "distinct (map e_id (endpoints db))" "row \<in> set (endpoints db)"
  shows "get_endpoint_details loads db (e_id row)
     = Inr (Details row
         (filter (\<lambda>p. p_endpoint_id p = e_id row) (parameters db))
         (map_option
            (\<lambda>r. \<lparr>rqd_row = r, rqd_schema = parse_field loads (rq_schema r),
                   rqd_example = parse_field loads (rq_example r)\<rparr>)
            (find (\<lambda>r. rq_endpoint_id r = e_id row) (request_bodies db)))
         (map (\<lambda>r. \<lparr>rsd_row = r, rsd_schema = parse_field loads (rs_schema r),
                     rsd_example = parse_field loads (rs_example r)\<rparr>)
            (filter (\<lambda>r. rs_endpoint_id r = e_id row) (response_bodies db))))"
  using find_by_id[OF assms(2,3)] assms(1)
  by (simp add: get_endpoint_details_def get_session_def reraise_as_exception_def)

text \<open>
  Claim C6, as the code has it. In a catalog with unique endpoint ids, take an endpoint row
  whose path is in normalized form and has no backslash and whose method is lower-case, such
  that no other row with that method has a path which the row's path, read as a
  case-insensitive \<open>LIKE\<close> pattern, matches. With a working connection,
  \<open>find_endpoint_by_path_method\<close> called with the row's path and method returns that row
  with its parameters, its request body if there is one, and its response bodies, the
  schema and example of each body parsed where \<open>json.loads\<close> accepts them; the object is
  left as it was.
\<close>

theorem find_endpoint_reflexive_amended:
  assumes "link db = Ready"
    and "distinct (map e_id (endpoints db))"
    and "row \<in> set (endpoints db)"
    and "normalize_path (e_path row) = e_path row"
    and "lower (e_method row) = e_method row"
    and "CHR 0x5C \<notin> set (e_path row)"
    and "\<forall>other\<in>set (endpoints db).
           e_method other = e_method row \<and> ilike (e_path row) (e_path other) \<longrightarrow> other = row"
  shows "find_endpoint_by_path_method loads db (e_path row) (e_method row)
     = (Inr (Some (Details row
         (filter (\<lambda>p. p_endpoint_id p = e_id row) (parameters db))
         (map_option
            (\<lambda>r. \<lparr>rqd_row = r, rqd_schema = parse_field loads (rq_schema r),
                   rqd_example = parse_field loads (rq_example r)\<rparr>)
            (find (\<lambda>r. rq_endpoint_id r = e_id row) (request_bodies db)))
         (map (\<lambda>r. \<lparr>rsd_row = r, rsd_schema = parse_field loads (rs_schema r),
                     rsd_example = parse_field loads (rs_example r)\<rparr>)
            (filter (\<lambda>r. rs_endpoint_id r = e_id row) (response_bodies db))))), db)"
proof -
  have d: "\<not> dangling_escape (lower (e_path row))"
    using dangling_escape_backslash lower_no_backslash[OF assms(6)] by blast
  have "exact_match db (e_path row) (e_method row) = Some row"
    unfolding exact_match_def
    using assms(3,5,7) ilike_refl[OF assms(6)]
    by (intro find_unique) auto
  with d assms(1,4) get_endpoint_details_row[OF assms(1,2,3), of loads]
  show ?thesis
    by (simp add: find_endpoint_by_path_method_def get_session_def return_details_def)
qed


lemmas catalog_eval_defs = ticket_catalog_def detailed_catalog_def case_catalog_def catalog_of_def
  mk_endpoint_def

lemmas path_eval_defs = normalize_path_def strip_def py_isspace_def in_range_def startswith_char_def
  endswith_char_def rstrip_char_def lower_def py_lower_char_def ilike_def

theorem find_endpoint_reflexive_amended_witness:
  "link detailed_catalog = Ready
   \<and> distinct (map e_id (endpoints detailed_catalog))
   \<and> mk_endpoint 2 ''/service/tickets/{id}'' ''get'' ''Get Ticket'' \<in> set (endpoints detailed_catalog)
   \<and> normalize_path ''/service/tickets/{id}'' = ''/service/tickets/{id}''
   \<and> lower ''get'' = ''get''
   \<and> find_endpoint_by_path_method loads_empty_object detailed_catalog ''/service/tickets/{id}'' ''get''
     = (Inr (Some (Details (mk_endpoint 2 ''/service/tickets/{id}'' ''get'' ''Get Ticket'')
          [\<lparr>p_id = 1, p_endpoint_id = 2, p_name = ''id'', p_location = ''path'',
            p_required = Some True, p_type = Some ''integer'', p_description = None\<rparr>]
          (Some \<lparr>rqd_row = \<lparr>rq_id = 1, rq_endpoint_id = 2, rq_schema = Some ''{}'', rq_example = None\<rparr>,
                 rqd_schema = Json (), rqd_example = Null\<rparr>)
          [\<lparr>rsd_row = \<lparr>rs_id = 1, rs_endpoint_id = 2, rs_status_code = Some ''200'',
                        rs_description = None, rs_schema = Some ''not json'', rs_example = Some []\<rparr>,
            rsd_schema = Text ''not json'', rsd_example = Text []\<rparr>])), detailed_catalog)"
proof -
  let ?row = "mk_endpoint 2 ''/service/tickets/{id}'' ''get'' ''Get Ticket''"
  have p: "e_path ?row = ''/service/tickets/{id}''" and m: "e_method ?row = ''get''"
    and i: "e_id ?row = 2"
    by (simp_all add: mk_endpoint_def)
  have 1: "link detailed_catalog = Ready"
    and 2: "distinct (map e_id (endpoints detailed_catalog))"
    and 3: "?row \<in> set (endpoints detailed_catalog)"
    by (simp_all add: catalog_eval_defs)
  have 4: "normalize_path (e_path ?row) = e_path ?row"
    unfolding p by (simp add: path_eval_defs)
  have 5: "lower (e_method ?row) = e_method ?row"
    unfolding m by (simp add: path_eval_defs)
  have 6: "CHR 0x5C \<notin> set (e_path ?row)"
    unfolding p by simp
  have 7: "\<forall>other\<in>set (endpoints detailed_catalog).
           e_method other = e_method ?row \<and> ilike (e_path ?row) (e_path other) \<longrightarrow> other = ?row"
    unfolding p m by (simp add: catalog_eval_defs path_eval_defs)
  have t: "parameters detailed_catalog
        = [\<lparr>p_id = 1, p_endpoint_id = 2, p_name = ''id'', p_location = ''path'',
            p_required = Some True, p_type = Some ''integer'', p_description = None\<rparr>]"
     "request_bodies detailed_catalog
        = [\<lparr>rq_id = 1, rq_endpoint_id = 2, rq_schema = Some ''{}'', rq_example = None\<rparr>]"
     "response_bodies detailed_catalog
        = [\<lparr>rs_id = 1, rs_endpoint_id = 2, rs_status_code = Some ''200'',
                        rs_description = None, rs_schema = Some ''not json'', rs_example = Some []\<rparr>]"
    by (simp_all add: catalog_eval_defs)
  from find_endpoint_reflexive_amended[OF 1 2 3 4 5 6 7, of loads_empty_object]
  have "find_endpoint_by_path_method loads_empty_object detailed_catalog ''/service/tickets/{id}'' ''get''
     = (Inr (Some (Details ?row
          [\<lparr>p_id = 1, p_endpoint_id = 2, p_name = ''id'', p_location = ''path'',
            p_required = Some True, p_type = Some ''integer'', p_description = None\<rparr>]
          (Some \<lparr>rqd_row = \<lparr>rq_id = 1, rq_endpoint_id = 2, rq_schema = Some ''{}'', rq_example = None\<rparr>,
                 rqd_schema = Json (), rqd_example = Null\<rparr>)
          [\<lparr>rsd_row = \<lparr>rs_id = 1, rs_endpoint_id = 2, rs_status_code = Some ''200'',
                        rs_description = None, rs_schema = Some ''not json'', rs_example = Some []\<rparr>,
            rsd_schema = Text ''not json'', rsd_example = Text []\<rparr>])), detailed_catalog)"
    unfolding p m i t by (simp add: parse_field_def loads_empty_object_def)
  moreover have "normalize_path ''/service/tickets/{id}'' = ''/service/tickets/{id}''"
    using 4 unfolding p .
  moreover have "lower ''get'' = ''get''"
    using 5 unfolding m .
  ultimately show ?thesis using 1 2 3 by (intro conjI)
qed

text \<open>
  Claim C6 as the specification words it fails. The catalog holds \<open>/Service/Tickets\<close> and
  \<open>/service/tickets\<close>, both with \<open>get\<close>; called with the path and method of the second
  endpoint, the resolver returns the first.
\<close>

theorem find_endpoint_reflexive_counterexample:
  "mk_endpoint 2 ''/service/tickets'' ''get'' ''Get Tickets'' \<in> set (endpoints case_catalog)
   \<and> fst (find_endpoint_by_path_method loads_empty_object case_catalog ''/service/tickets'' ''get'')
      = Inr (Some (Details (mk_endpoint 1 ''/Service/Tickets'' ''get'' ''Get Tickets (old)'') [] None []))
   \<and> mk_endpoint 1 ''/Service/Tickets'' ''get'' ''Get Tickets (old)''
      \<noteq> mk_endpoint 2 ''/service/tickets'' ''get'' ''Get Tickets''"
  by (simp add: find_endpoint_by_path_method_def exact_match_def return_details_def
      get_endpoint_details_def get_session_def reraise_as_exception_def catalog_eval_defs
      path_eval_defs)

subsection \<open>Paths without a placeholder\<close>




end
